theory Spec2Isabelle
  imports Main "HOL-Library.Word"
begin

section \<open>ArrayDriver: the 10 x 14 electrode matrix\<close>

text \<open>
  Shallow embedding of \<^verbatim>\<open>include/ArrayDriver.h\<close> and \<^verbatim>\<open>src/ArrayDriver.cpp\<close>.
  Member functions take the object and return it updated. Calls into the HAL (GPIO set/reset
  register writes, \<^verbatim>\<open>HAL_Delay\<close>, \<^verbatim>\<open>HAL_UART_Transmit\<close>) are appended, in program order,
  to the log \<open>hal\<close> kept beside the object's fields.
\<close>

type_synonym uint8_t = "8 word"
type_synonym uint16_t = "16 word"
type_synonym uint32_t = "32 word"

abbreviation NUM_ROWS :: nat where "NUM_ROWS \<equiv> 10"
abbreviation NUM_COLS :: nat where "NUM_COLS \<equiv> 14"
abbreviation NUM_ELECTRODES :: nat where "NUM_ELECTRODES \<equiv> 140"

text \<open>
  A write to a set/reset register of the port of one row or column line: the line index
  and the level it is driven to (\<^verbatim>\<open>BSRR = pin\<close> drives high, \<^verbatim>\<open>BSRR = pin << 16\<close> low).
\<close>

datatype hal_event =
    RowLine nat bool
  | ColLine nat bool
  | Delay uint32_t
  | Transmit string

record ElectrodeStep_t =
  step_row :: uint8_t
  step_col :: uint8_t
  step_state :: bool
  duration_ms :: uint32_t

text \<open>\<open>steps\<close> is a pointer to an array: \<open>None\<close> is the null pointer.\<close>

record ElectrodeSequence_t =
  steps :: "ElectrodeStep_t list option"
  numSteps :: uint16_t
  cycleCount :: uint32_t
  cycleDelay_ms :: uint32_t

record ElectrodeMapping_t =
  map_row :: uint8_t
  map_col :: uint8_t

record ArrayDriver =
  electrodeState :: "bool list list"
  sequenceRunning :: bool
  currentStep :: uint16_t
  stepStartTime :: uint32_t
  currentSequence :: "ElectrodeSequence_t option"
  electrodeMap :: "ElectrodeMapping_t list"
  pcieToRow :: "uint8_t list"
  pcieToCol :: "uint8_t list"
  hal :: "hal_event list"

text \<open>The shape the array types fix: \<^verbatim>\<open>bool [NUM_ROWS][NUM_COLS]\<close>.\<close>

definition matrix_ok :: "bool list list \<Rightarrow> bool" where
  "matrix_ok m = (length m = NUM_ROWS \<and> list_all (\<lambda>line. length line = NUM_COLS) m)"

definition emit :: "hal_event list \<Rightarrow> ArrayDriver \<Rightarrow> ArrayDriver" where
  "emit es d = d\<lparr>hal := hal d @ es\<rparr>"

definition HAL_Delay :: "uint32_t \<Rightarrow> ArrayDriver \<Rightarrow> ArrayDriver" where
  "HAL_Delay ms d = emit [Delay ms] d"

text \<open>\<^verbatim>\<open>m[r][c] = v\<close> on a two-dimensional array.\<close>

definition store2 :: "nat \<Rightarrow> nat \<Rightarrow> bool \<Rightarrow> bool list list \<Rightarrow> bool list list" where
  "store2 r c v m = m[r := (m ! r)[c := v]]"

text \<open>
  \<^verbatim>\<open>setRowColAtomic\<close>: with interrupts masked, state high drives the row high and the
  column low; state low drives the row low and the column high.
\<close>

definition setRowColAtomic :: "uint8_t \<Rightarrow> uint8_t \<Rightarrow> bool \<Rightarrow> ArrayDriver \<Rightarrow> ArrayDriver" where
  "setRowColAtomic r c s d =
     (if s then emit [RowLine (unat r) True, ColLine (unat c) False] d
      else emit [RowLine (unat r) False, ColLine (unat c) True] d)"

definition setElectrode :: "uint8_t \<Rightarrow> uint8_t \<Rightarrow> bool \<Rightarrow> ArrayDriver \<Rightarrow> ArrayDriver" where
  "setElectrode r c s d =
     (if unat r \<ge> NUM_ROWS \<or> unat c \<ge> NUM_COLS then d
      else (let d1 = setRowColAtomic r c s d
            in d1\<lparr>electrodeState := store2 (unat r) (unat c) s (electrodeState d1)\<rparr>))"

definition getElectrodeState :: "uint8_t \<Rightarrow> uint8_t \<Rightarrow> ArrayDriver \<Rightarrow> bool" where
  "getElectrodeState r c d =
     (if unat r \<ge> NUM_ROWS \<or> unat c \<ge> NUM_COLS then False
      else electrodeState d ! unat r ! unat c)"

text \<open>
  \<^verbatim>\<open>getRowColFromElectrode\<close>: \<open>None\<close> is the \<^verbatim>\<open>return false\<close> that leaves both out-parameters
  unwritten; \<open>Some (row, col)\<close> is \<^verbatim>\<open>return true\<close> with both written.
\<close>

definition getRowColFromElectrode :: "uint8_t \<Rightarrow> ArrayDriver \<Rightarrow> (uint8_t \<times> uint8_t) option" where
  "getRowColFromElectrode electrodeNum d =
     (if unat electrodeNum < 1 \<or> unat electrodeNum > NUM_ELECTRODES then None
      else Some (map_row (electrodeMap d ! (unat electrodeNum - 1)),
                 map_col (electrodeMap d ! (unat electrodeNum - 1))))"

definition setElectrodeByNumber :: "uint8_t \<Rightarrow> bool \<Rightarrow> ArrayDriver \<Rightarrow> ArrayDriver" where
  "setElectrodeByNumber electrodeNum s d =
     (case getRowColFromElectrode electrodeNum d of
        Some (r, c) \<Rightarrow> setElectrode r c s d
      | None \<Rightarrow> d)"

text \<open>The state-array loops of the bulk operations: every cell, row by row.\<close>

definition fill_state :: "bool \<Rightarrow> bool list list \<Rightarrow> bool list list" where
  "fill_state v m =
     fold (\<lambda>r m1. fold (\<lambda>c m2. store2 r c v m2) [0..<NUM_COLS] m1) [0..<NUM_ROWS] m"

definition setAllElectrodesLow :: "ArrayDriver \<Rightarrow> ArrayDriver" where
  "setAllElectrodesLow d =
     (let d1 = emit (map (\<lambda>r. RowLine r False) [0..<NUM_ROWS]) d;
          d2 = emit (map (\<lambda>c. ColLine c True) [0..<NUM_COLS]) d1
      in d2\<lparr>electrodeState := fill_state False (electrodeState d2)\<rparr>)"

definition setAllElectrodesHigh :: "ArrayDriver \<Rightarrow> ArrayDriver" where
  "setAllElectrodesHigh d =
     (let d1 = emit (map (\<lambda>r. RowLine r True) [0..<NUM_ROWS]) d;
          d2 = emit (map (\<lambda>c. ColLine c False) [0..<NUM_COLS]) d1
      in d2\<lparr>electrodeState := fill_state True (electrodeState d2)\<rparr>)"

definition setRowElectrodes :: "uint8_t \<Rightarrow> bool \<Rightarrow> ArrayDriver \<Rightarrow> ArrayDriver" where
  "setRowElectrodes r s d =
     (if unat r \<ge> NUM_ROWS then d
      else fold (\<lambda>c d1. setElectrode r (of_nat c) s d1) [0..<NUM_COLS] d)"

definition setColElectrodes :: "uint8_t \<Rightarrow> bool \<Rightarrow> ArrayDriver \<Rightarrow> ArrayDriver" where
  "setColElectrodes c s d =
     (if unat c \<ge> NUM_COLS then d
      else fold (\<lambda>r d1. setElectrode (of_nat r) c s d1) [0..<NUM_ROWS] d)"

text \<open>
  \<^verbatim>\<open>getPattern\<close> copies the state array, cell by cell, into the caller's array, which is
  passed in and returned.
\<close>

definition getPattern :: "ArrayDriver \<Rightarrow> bool list list \<Rightarrow> bool list list" where
  "getPattern d pattern =
     fold (\<lambda>r p1. fold (\<lambda>c p2. store2 r c (electrodeState d ! r ! c) p2) [0..<NUM_COLS] p1)
       [0..<NUM_ROWS] pattern"

subsection \<open>Sequences\<close>

text \<open>
  An index past the end of the array behind \<open>steps\<close> is a read the C program must not make;
  the model stops there with a fault.
\<close>

datatype fault = OutOfBounds

definition run_step :: "ElectrodeStep_t \<Rightarrow> ArrayDriver \<Rightarrow> ArrayDriver" where
  "run_step s d = HAL_Delay (duration_ms s) (setElectrode (step_row s) (step_col s) (step_state s) d)"

text \<open>The inner loop \<^verbatim>\<open>for (step = 0; step < numSteps; step++)\<close>, over its index values.\<close>

fun steps_loop :: "ElectrodeStep_t list \<Rightarrow> nat list \<Rightarrow> ArrayDriver \<Rightarrow> fault + ArrayDriver" where
  "steps_loop arr [] d = Inr d"
| "steps_loop arr (i # rest) d =
     (if i < length arr then steps_loop arr rest (run_step (arr ! i) d) else Inl OutOfBounds)"

text \<open>
  The outer loop \<^verbatim>\<open>for (cycle = 0; cycle < cycleCount; cycle++)\<close>; the test
  \<^verbatim>\<open>cycle < cycleCount - 1\<close> is unsigned 32-bit arithmetic.
\<close>

fun cycles_loop ::
  "ElectrodeSequence_t \<Rightarrow> ElectrodeStep_t list \<Rightarrow> nat list \<Rightarrow> ArrayDriver \<Rightarrow> fault + ArrayDriver" where
  "cycles_loop sq arr [] d = Inr d"
| "cycles_loop sq arr (cycle # rest) d =
     (case steps_loop arr [0..<unat (numSteps sq)] d of
        Inl f \<Rightarrow> Inl f
      | Inr d1 \<Rightarrow>
          cycles_loop sq arr rest
            (if (of_nat cycle :: uint32_t) < cycleCount sq - 1
             then HAL_Delay (cycleDelay_ms sq) d1 else d1))"

text \<open>The argument is a pointer to a sequence: \<open>None\<close> is the null pointer.\<close>

definition executeSequence :: "ElectrodeSequence_t option \<Rightarrow> ArrayDriver \<Rightarrow> fault + ArrayDriver" where
  "executeSequence sequence d =
     (case sequence of
        None \<Rightarrow> Inr d
      | Some sq \<Rightarrow>
          (case steps sq of
             None \<Rightarrow> Inr d
           | Some arr \<Rightarrow> cycles_loop sq arr [0..<unat (cycleCount sq)] d))"

text \<open>\<open>tick\<close> is the value \<^verbatim>\<open>HAL_GetTick()\<close> returns at the call.\<close>

definition executeSequenceAsync ::
  "ElectrodeSequence_t option \<Rightarrow> uint32_t \<Rightarrow> ArrayDriver \<Rightarrow> ArrayDriver" where
  "executeSequenceAsync sequence tick d =
     (case sequence of
        None \<Rightarrow> d
      | Some sq \<Rightarrow>
          (case steps sq of
             None \<Rightarrow> d
           | Some arr \<Rightarrow>
               d\<lparr>currentSequence := Some sq, sequenceRunning := True,
                 currentStep := 0, stepStartTime := tick\<rparr>))"

definition isSequenceRunning :: "ArrayDriver \<Rightarrow> bool" where
  "isSequenceRunning d = sequenceRunning d"

definition stopSequence :: "ArrayDriver \<Rightarrow> ArrayDriver" where
  "stopSequence d = d\<lparr>sequenceRunning := False, currentSequence := None, currentStep := 0\<rparr>"

text \<open>\<^verbatim>\<open>runElectrodeTest\<close>: electrodes 1 to 140 in turn, high for 100 ms, then low.\<close>

definition runElectrodeTest :: "ArrayDriver \<Rightarrow> ArrayDriver" where
  "runElectrodeTest d =
     fold (\<lambda>n d1. setElectrodeByNumber (of_nat n) False
                    (HAL_Delay 100 (setElectrodeByNumber (of_nat n) True d1)))
       [1..<Suc NUM_ELECTRODES] d"

subsection \<open>C strings and the C library\<close>

text \<open>
  A C string is the bytes before the first NUL. A pointer into a string is the suffix it
  points at, so \<^verbatim>\<open>ptr++\<close> is \<open>tl\<close> and \<^verbatim>\<open>cmd + n\<close> is \<open>drop n\<close>; a null pointer is \<open>None\<close>.
  The functions of \<^verbatim>\<open><string.h>\<close>, \<^verbatim>\<open><ctype.h>\<close>, \<^verbatim>\<open><stdio.h>\<close> and \<^verbatim>\<open><stdlib.h>\<close> are
  not part of the repository; they are written here from the C standard ("C" locale).
\<close>

abbreviation NUL :: char where "NUL \<equiv> CHR 0x00"
abbreviation dquote :: char where "dquote \<equiv> CHR 0x22"

definition cstr :: "string \<Rightarrow> string" where
  "cstr s = takeWhile (\<lambda>c. c \<noteq> NUL) s"

definition isspace :: "char \<Rightarrow> bool" where
  "isspace c = (c = CHR '' '' \<or> c = CHR 0x09 \<or> c = CHR 0x0A \<or> c = CHR 0x0B \<or> c = CHR 0x0C \<or> c = CHR 0x0D)"

definition isdigit :: "char \<Rightarrow> bool" where
  "isdigit c = (48 \<le> (of_char c :: nat) \<and> (of_char c :: nat) \<le> 57)"

text \<open>\<^verbatim>\<open>c - '0'\<close>\<close>

definition digit_val :: "char \<Rightarrow> int" where
  "digit_val c = int (of_char c) - 48"

fun strchr :: "string \<Rightarrow> char \<Rightarrow> string option" where
  "strchr [] c = None"
| "strchr (x # xs) c = (if x = c then Some (x # xs) else strchr xs c)"

fun strstr :: "string \<Rightarrow> string \<Rightarrow> string option" where
  "strstr [] needle = (if needle = [] then Some [] else None)"
| "strstr (x # xs) needle =
     (if take (length needle) (x # xs) = needle then Some (x # xs) else strstr xs needle)"

text \<open>\<^verbatim>\<open>strncmp(s, lit, n) == 0\<close> for a literal of exactly \<open>n\<close> characters.\<close>

definition starts_with :: "string \<Rightarrow> string \<Rightarrow> bool" where
  "starts_with s lit = (take (length lit) s = lit)"

text \<open>\<^verbatim>\<open>snprintf(buf, cap, ...)\<close>: the formatted text, cut to \<open>cap - 1\<close> characters.\<close>

definition snprintf :: "nat \<Rightarrow> string \<Rightarrow> string" where
  "snprintf cap s = take (cap - 1) s"

definition digit_char :: "nat \<Rightarrow> char" where
  "digit_char n = char_of (48 + n)"

function show_nat :: "nat \<Rightarrow> string" where
  "show_nat n = (if n < 10 then [digit_char n] else show_nat (n div 10) @ [digit_char (n mod 10)])"
  by pat_completeness auto
termination
  by (relation "measure id") auto

declare show_nat.simps [simp del]

text \<open>The conversion \<^verbatim>\<open>%d\<close>.\<close>

definition show_int :: "int \<Rightarrow> string" where
  "show_int i = (if i < 0 then CHR ''-'' # show_nat (nat (- i)) else show_nat (nat i))"

text \<open>The decimal digits at the head of a string, read into an accumulator.\<close>

fun read_digits :: "int \<Rightarrow> string \<Rightarrow> int" where
  "read_digits acc [] = acc"
| "read_digits acc (c # cs) = (if isdigit c then read_digits (acc * 10 + digit_val c) cs else acc)"

definition INT_MIN :: int where "INT_MIN = - (2 ^ 31)"
definition INT_MAX :: int where "INT_MAX = 2 ^ 31 - 1"

text \<open>
  \<^verbatim>\<open>atoi(s)\<close> is \<^verbatim>\<open>(int) strtol(s, NULL, 10)\<close>: white space, an optional sign, digits; on this
  32-bit target a value out of range is returned as \<^verbatim>\<open>INT_MAX\<close> or \<^verbatim>\<open>INT_MIN\<close>.
\<close>

definition atoi :: "string \<Rightarrow> int" where
  "atoi s =
     (let s1 = dropWhile isspace s;
          v = (case s1 of
                 [] \<Rightarrow> 0
               | c # r \<Rightarrow>
                   if c = CHR ''-'' then - read_digits 0 r
                   else if c = CHR ''+'' then read_digits 0 r
                   else read_digits 0 s1)
      in max INT_MIN (min INT_MAX v))"

subsection \<open>Loading the electrode map\<close>

text \<open>Arithmetic on \<^verbatim>\<open>int\<close> wraps at 32 bits in two's complement.\<close>

definition wrap32 :: "int \<Rightarrow> int" where
  "wrap32 x = (x + 2 ^ 31) mod 2 ^ 32 - 2 ^ 31"

fun json_digits :: "int \<Rightarrow> string \<Rightarrow> int" where
  "json_digits v [] = v"
| "json_digits v (c # cs) =
     (if isdigit c then json_digits (wrap32 (v * 10 + digit_val c)) cs else v)"

definition parseJSONInt :: "string option \<Rightarrow> int" where
  "parseJSONInt str =
     (case str of
        None \<Rightarrow> 0
      | Some s \<Rightarrow>
          (let s1 = dropWhile isspace s
           in case s1 of
                [] \<Rightarrow> 0
              | c # r \<Rightarrow>
                  if c = CHR ''-'' then wrap32 (- json_digits 0 r) else json_digits 0 s1))"

definition findJSONValue :: "string \<Rightarrow> string \<Rightarrow> string option" where
  "findJSONValue json key =
     (let searchStr = snprintf 64 (dquote # key @ [dquote])
      in case strstr json searchStr of
           None \<Rightarrow> None
         | Some keyPos \<Rightarrow>
             (case strchr keyPos (CHR '':'') of
                None \<Rightarrow> None
              | Some colon \<Rightarrow> Some (dropWhile isspace (tl colon))))"

text \<open>
  The file system, as \<^verbatim>\<open>readFile\<close> sees it: the bytes of the file at a path, or \<open>None\<close>
  when it cannot be opened (or no buffer can be allocated). The buffer returned is
  terminated by a NUL.
\<close>

type_synonym filesystem = "string \<Rightarrow> string option"

definition readFile :: "filesystem \<Rightarrow> string \<Rightarrow> string option" where
  "readFile fs filepath = map_option cstr (fs filepath)"

definition ELECTRODE_MAP_PATH :: string where
  "ELECTRODE_MAP_PATH = ''resources/ElectrodeMap.json''"

definition PIN_MAP_PATH :: string where
  "PIN_MAP_PATH = ''resources/PinMap.json''"

text \<open>The body of the loop of \<^verbatim>\<open>parseElectrodeMapJSON\<close> for one electrode number.\<close>

definition electrode_entry :: "string \<Rightarrow> nat \<Rightarrow> ArrayDriver \<Rightarrow> ArrayDriver" where
  "electrode_entry openBrace electrode d =
     (let keyStr = snprintf 16 (dquote # show_int (int electrode) @ [dquote])
      in case strstr openBrace keyStr of
           None \<Rightarrow> d
         | Some keyPos \<Rightarrow>
             (case findJSONValue keyPos (tl keyStr) of
                None \<Rightarrow> d
              | Some valuePos \<Rightarrow>
                  (let pciePin = parseJSONInt (Some valuePos)
                   in if pciePin > 0 \<and> pciePin \<le> int NUM_ELECTRODES
                      then d\<lparr>electrodeMap := (electrodeMap d)[electrode - 1 :=
                               \<lparr>map_row = of_int ((pciePin - 1) div int NUM_COLS),
                                map_col = of_int ((pciePin - 1) mod int NUM_COLS)\<rparr>]\<rparr>
                      else d)))"

definition parseElectrodeMapJSON :: "string \<Rightarrow> ArrayDriver \<Rightarrow> bool \<times> ArrayDriver" where
  "parseElectrodeMapJSON jsonData d =
     (case strstr jsonData (dquote # ''mapping'' @ [dquote]) of
        None \<Rightarrow> (False, d)
      | Some mappingStart \<Rightarrow>
          (case strchr mappingStart (CHR ''{'') of
             None \<Rightarrow> (False, d)
           | Some openBrace \<Rightarrow>
               (True, fold (electrode_entry openBrace) [1..<Suc NUM_ELECTRODES] d)))"

definition loadElectrodeMap :: "filesystem \<Rightarrow> string \<Rightarrow> ArrayDriver \<Rightarrow> bool \<times> ArrayDriver" where
  "loadElectrodeMap fs filepath d =
     (case readFile fs filepath of
        None \<Rightarrow> (False, d)
      | Some jsonData \<Rightarrow> parseElectrodeMapJSON jsonData d)"

text \<open>The body of the nested loops of \<^verbatim>\<open>parsePinMapJSON\<close> for one (row, col).\<close>

definition pin_entry :: "string \<Rightarrow> nat \<Rightarrow> nat \<Rightarrow> ArrayDriver \<Rightarrow> ArrayDriver" where
  "pin_entry openBrace r c d =
     (let keyStr = snprintf 16 (dquote # show_int (int r) @ '','' @ show_int (int c) @ [dquote])
      in case strstr openBrace keyStr of
           None \<Rightarrow> d
         | Some keyPos \<Rightarrow>
             (case strchr keyPos (CHR '':'') of
                None \<Rightarrow> d
              | Some colon \<Rightarrow>
                  (let pciePin = parseJSONInt (Some (tl colon))
                   in if pciePin > 0 \<and> pciePin \<le> int NUM_ELECTRODES
                      then d\<lparr>pcieToRow := (pcieToRow d)[nat pciePin - 1 := of_nat r],
                             pcieToCol := (pcieToCol d)[nat pciePin - 1 := of_nat c]\<rparr>
                      else d)))"

text \<open>
  The last loop of \<^verbatim>\<open>parsePinMapJSON\<close> for one electrode number: the entry is read back as
  a pin number (a \<^verbatim>\<open>uint16_t\<close>) and replaced by the row and column of that pin.
\<close>

definition resolve_entry :: "nat \<Rightarrow> ArrayDriver \<Rightarrow> ArrayDriver" where
  "resolve_entry electrode d =
     (let tempRow = map_row (electrodeMap d ! (electrode - 1));
          tempCol = map_col (electrodeMap d ! (electrode - 1));
          pciePin = unat (of_nat (unat tempRow * NUM_COLS + unat tempCol + 1) :: uint16_t)
      in if pciePin > 0 \<and> pciePin \<le> NUM_ELECTRODES
         then d\<lparr>electrodeMap := (electrodeMap d)[electrode - 1 :=
                  \<lparr>map_row = pcieToRow d ! (pciePin - 1),
                   map_col = pcieToCol d ! (pciePin - 1)\<rparr>]\<rparr>
         else d)"

definition parsePinMapJSON :: "string \<Rightarrow> ArrayDriver \<Rightarrow> bool \<times> ArrayDriver" where
  "parsePinMapJSON jsonData d =
     (case strstr jsonData (dquote # ''electrodes'' @ [dquote]) of
        None \<Rightarrow> (False, d)
      | Some electrodesStart \<Rightarrow>
          (case strchr electrodesStart (CHR ''{'') of
             None \<Rightarrow> (False, d)
           | Some openBrace \<Rightarrow>
               (let d1 = fold (\<lambda>i d0. d0\<lparr>pcieToRow := (pcieToRow d0)[i := 0],
                                          pcieToCol := (pcieToCol d0)[i := 0]\<rparr>)
                           [0..<NUM_ELECTRODES] d;
                    d2 = fold (\<lambda>r d0. fold (\<lambda>c. pin_entry openBrace r c) [0..<NUM_COLS] d0)
                           [0..<NUM_ROWS] d1
                in (True, fold resolve_entry [1..<Suc NUM_ELECTRODES] d2))))"

definition loadPinMap :: "filesystem \<Rightarrow> string \<Rightarrow> ArrayDriver \<Rightarrow> bool \<times> ArrayDriver" where
  "loadPinMap fs filepath d =
     (case readFile fs filepath of
        None \<Rightarrow> (False, d)
      | Some jsonData \<Rightarrow> parsePinMapJSON jsonData d)"

text \<open>The fallback loop of the constructor.\<close>

definition default_map :: "ElectrodeMapping_t list \<Rightarrow> ElectrodeMapping_t list" where
  "default_map m =
     fold (\<lambda>i m0. m0[i := \<lparr>map_row = of_nat (i div NUM_COLS), map_col = of_nat (i mod NUM_COLS)\<rparr>])
       [0..<NUM_ELECTRODES] m"

text \<open>
  The constructor. \<open>raw\<close> is the object's storage as the constructor finds it: the
  constructor assigns the state array and the sequence variables, and leaves
  \<open>electrodeMap\<close>, \<open>pcieToRow\<close> and \<open>pcieToCol\<close> to the two loaders. Both loaders run
  (\<^verbatim>\<open>success &= ...\<close> does not short-circuit).
\<close>

definition ArrayDriver_new :: "ArrayDriver \<Rightarrow> filesystem \<Rightarrow> ArrayDriver" where
  "ArrayDriver_new raw fs =
     (let d0 = raw\<lparr>electrodeState := fill_state False (electrodeState raw),
                   sequenceRunning := False, currentStep := 0, stepStartTime := 0,
                   currentSequence := None\<rparr>;
          (ok1, d1) = loadElectrodeMap fs ELECTRODE_MAP_PATH d0;
          (ok2, d2) = loadPinMap fs PIN_MAP_PATH d1
      in if \<not> (ok1 \<and> ok2) then d2\<lparr>electrodeMap := default_map (electrodeMap d2)\<rparr> else d2)"

text \<open>Storage of the right shape with every byte zero, as static storage is before construction.\<close>

definition zeroed :: ArrayDriver where
  "zeroed =
     \<lparr>electrodeState = replicate NUM_ROWS (replicate NUM_COLS False),
      sequenceRunning = False, currentStep = 0, stepStartTime = 0, currentSequence = None,
      electrodeMap = replicate NUM_ELECTRODES \<lparr>map_row = 0, map_col = 0\<rparr>,
      pcieToRow = replicate NUM_ELECTRODES 0, pcieToCol = replicate NUM_ELECTRODES 0,
      hal = []\<rparr>"

section \<open>UartCommandHandler: the line protocol\<close>

text \<open>
  Shallow embedding of \<^verbatim>\<open>include/UartCommandHandler.h\<close> and \<^verbatim>\<open>src/UartCommandHandler.cpp\<close>.
  The handler holds a pointer to the one driver; the model keeps the driver inside the
  handler's record. \<open>responseBuffer\<close> is the C string the buffer holds.
\<close>

abbreviation UART_CMD_BUFFER_SIZE :: nat where "UART_CMD_BUFFER_SIZE \<equiv> 2048"
abbreviation MAX_STEPS :: nat where "MAX_STEPS \<equiv> 256"
abbreviation UART_RESPONSE_BUFFER_SIZE :: nat where "UART_RESPONSE_BUFFER_SIZE \<equiv> 256"

record UartCommandHandler =
  arrayDriver :: ArrayDriver
  cmdBuffer :: string
  cmdBufferIndex :: uint16_t
  cmdComplete :: bool
  responseBuffer :: string
  sequenceSteps :: "ElectrodeStep_t list"
  handlerSequence :: ElectrodeSequence_t

definition sendResponse :: "string \<Rightarrow> UartCommandHandler \<Rightarrow> UartCommandHandler" where
  "sendResponse response h = h\<lparr>arrayDriver := emit [Transmit response] (arrayDriver h)\<rparr>"

definition sendError :: "string \<Rightarrow> UartCommandHandler \<Rightarrow> UartCommandHandler" where
  "sendError errorMsg h =
     (let h1 = h\<lparr>responseBuffer :=
                  snprintf UART_RESPONSE_BUFFER_SIZE (''ERROR: '' @ errorMsg @ ''\<newline>'')\<rparr>
      in sendResponse (responseBuffer h1) h1)"

text \<open>
  \<^verbatim>\<open>sendError(responseBuffer)\<close>: the message to format is the destination buffer itself. C
  does not define what \<^verbatim>\<open>snprintf\<close> writes for \<^verbatim>\<open>%s\n\<close> when source and destination overlap;
  \<open>overlap\<close> stands for whatever the C library makes of it, after the literal \<^verbatim>\<open>ERROR: \<close>.
\<close>

definition sendError_responseBuffer ::
  "(string \<Rightarrow> string) \<Rightarrow> UartCommandHandler \<Rightarrow> UartCommandHandler" where
  "sendError_responseBuffer overlap h =
     (let h1 = h\<lparr>responseBuffer :=
                  snprintf UART_RESPONSE_BUFFER_SIZE (''ERROR: '' @ overlap (responseBuffer h))\<rparr>
      in sendResponse (responseBuffer h1) h1)"

definition sendOK :: "UartCommandHandler \<Rightarrow> UartCommandHandler" where
  "sendOK h = sendResponse ''OK\<newline>'' h"

definition UartCommandHandler_init :: "UartCommandHandler \<Rightarrow> UartCommandHandler" where
  "UartCommandHandler_init h =
     sendResponse ''Type 'HELP' for command list\<newline>''
       (sendResponse ''ArrayDriver UART Command Handler Ready\<newline>''
          (h\<lparr>cmdBufferIndex := 0, cmdComplete := False,
             cmdBuffer := replicate UART_CMD_BUFFER_SIZE NUL\<rparr>))"

definition processByte :: "char \<Rightarrow> UartCommandHandler \<Rightarrow> UartCommandHandler" where
  "processByte byte h =
     (if unat (cmdBufferIndex h) \<ge> UART_CMD_BUFFER_SIZE - 1
      then (sendError ''Buffer overflow'' h)\<lparr>cmdBufferIndex := 0\<rparr>
      else if byte = CHR 0x0A \<or> byte = CHR 0x0D
      then (if unat (cmdBufferIndex h) > 0
            then h\<lparr>cmdBuffer := (cmdBuffer h)[unat (cmdBufferIndex h) := NUL],
                   cmdComplete := True\<rparr>
            else h)
      else h\<lparr>cmdBuffer := (cmdBuffer h)[unat (cmdBufferIndex h) := byte],
             cmdBufferIndex := cmdBufferIndex h + 1\<rparr>)"

definition isCommandReady :: "UartCommandHandler \<Rightarrow> bool" where
  "isCommandReady h = cmdComplete h"

subsection \<open>The START command\<close>

text \<open>
  The first loop of \<^verbatim>\<open>UartCommandHandler::executeSequence\<close>. The result carries \<open>False\<close>
  when the loop left the function through \<^verbatim>\<open>sendError(...); return;\<close>. The electrode
  number is converted from \<^verbatim>\<open>int\<close> to \<^verbatim>\<open>uint8_t\<close> at the call.
\<close>

fun build_steps ::
  "int list \<Rightarrow> int list \<Rightarrow> nat list \<Rightarrow> UartCommandHandler \<Rightarrow> fault + bool \<times> UartCommandHandler" where
  "build_steps electrodeIds durations [] h = Inr (True, h)"
| "build_steps electrodeIds durations (i # rest) h =
     (if i \<ge> length electrodeIds then Inl OutOfBounds
      else case getRowColFromElectrode (of_int (electrodeIds ! i)) (arrayDriver h) of
             Some (r, c) \<Rightarrow>
               (if i \<ge> length (sequenceSteps h) \<or> i \<ge> length durations then Inl OutOfBounds
                else build_steps electrodeIds durations rest
                       (h\<lparr>sequenceSteps := (sequenceSteps h)[i :=
                            \<lparr>step_row = r, step_col = c, step_state = True,
                             duration_ms = of_int (durations ! i)\<rparr>]\<rparr>))
           | None \<Rightarrow> Inr (False, sendError ''Invalid electrode number'' h))"

definition UartCommandHandler_executeSequence ::
  "int \<Rightarrow> int \<Rightarrow> int \<Rightarrow> int list \<Rightarrow> int list \<Rightarrow> UartCommandHandler \<Rightarrow> fault + UartCommandHandler" where
  "UartCommandHandler_executeSequence cycleReps cycleDelay nSteps electrodeIds durations h =
     (case build_steps electrodeIds durations [0..<nat nSteps] h of
        Inl f \<Rightarrow> Inl f
      | Inr (False, h1) \<Rightarrow> Inr h1
      | Inr (True, h1) \<Rightarrow>
          (let h2 = h1\<lparr>handlerSequence :=
                       \<lparr>steps = Some (sequenceSteps h1), numSteps = of_int nSteps,
                        cycleCount = of_int cycleReps, cycleDelay_ms = of_int cycleDelay\<rparr>\<rparr>;
               h3 = sendResponse ''Executing sequence...\<newline>'' h2
           in case executeSequence (Some (handlerSequence h3)) (arrayDriver h3) of
                Inl f \<Rightarrow> Inl f
              | Inr d \<Rightarrow> Inr (sendResponse ''Sequence complete\<newline>'' (h3\<lparr>arrayDriver := d\<rparr>))))"

text \<open>
  The step loop of \<^verbatim>\<open>parseElectrodeCommand\<close>, entered with \<open>i = 0\<close>. The local arrays
  \<^verbatim>\<open>electrodeIds\<close> and \<^verbatim>\<open>durations\<close> are written at index \<open>i\<close> only, in increasing order, so
  each is the list of the entries written so far; \<open>electrodeId\<close> and \<open>duration\<close> are the
  entries \<^verbatim>\<open>electrodeIds[i]\<close> and \<^verbatim>\<open>durations[i]\<close> just written.
\<close>

function parse_steps ::
  "(string \<Rightarrow> string) \<Rightarrow> int \<Rightarrow> int \<Rightarrow> int \<Rightarrow> nat \<Rightarrow> string \<Rightarrow> int list \<Rightarrow> int list
     \<Rightarrow> UartCommandHandler \<Rightarrow> fault + UartCommandHandler" where
  "parse_steps overlap cycleReps cycleDelay nSteps i ptr electrodeIds durations h =
     (if int i < nSteps then
        (let electrodeId = atoi ptr; electrodeIds1 = electrodeIds @ [electrodeId]
         in if electrodeId < 1 \<or> electrodeId > 140
            then Inr (sendError_responseBuffer overlap
                   (h\<lparr>responseBuffer := snprintf UART_RESPONSE_BUFFER_SIZE
                        (''Invalid electrode ID at step '' @ show_int (int i) @ '' (1-140)'')\<rparr>))
            else case strchr ptr (CHR '','') of
                   None \<Rightarrow> Inr (sendError ''Missing comma in step'' h)
                 | Some comma \<Rightarrow>
                     (let duration = atoi (tl comma); durations1 = durations @ [duration]
                      in if duration < 0
                         then Inr (sendError_responseBuffer overlap
                                (h\<lparr>responseBuffer := snprintf UART_RESPONSE_BUFFER_SIZE
                                     (''Invalid duration at step '' @ show_int (int i))\<rparr>))
                         else case strchr (tl comma) (CHR ''|'') of
                                None \<Rightarrow> Inr (sendError ''Missing delimiter'' h)
                              | Some pipe \<Rightarrow>
                                  if starts_with (tl pipe) ''END''
                                  then (if int i + 1 = nSteps
                                        then (case UartCommandHandler_executeSequence cycleReps
                                                     cycleDelay nSteps electrodeIds1 durations1 h of
                                                Inl f \<Rightarrow> Inl f
                                              | Inr h1 \<Rightarrow> Inr (sendOK h1))
                                        else Inr (sendError ''Early END marker'' h))
                                  else parse_steps overlap cycleReps cycleDelay nSteps (Suc i)
                                         (tl pipe) electrodeIds1 durations1 h))
      else Inr (sendError ''Missing END marker'' h))"
  by pat_completeness auto
termination
  by (relation "measure (\<lambda>(overlap, cycleReps, cycleDelay, nSteps, i, rest). nat (nSteps - int i))") auto

declare parse_steps.simps [simp del]

definition parseElectrodeCommand ::
  "(string \<Rightarrow> string) \<Rightarrow> string \<Rightarrow> UartCommandHandler \<Rightarrow> fault + UartCommandHandler" where
  "parseElectrodeCommand overlap cmd h =
     (if \<not> starts_with cmd ''START|'' then Inr (sendError ''Invalid start'' h)
      else
        (let ptr = drop 6 cmd; cycleReps = atoi ptr
         in if cycleReps < 1 \<or> cycleReps > 1000
            then Inr (sendError ''Invalid cycle repetitions (1-1000)'' h)
            else case strchr ptr (CHR ''|'') of
                   None \<Rightarrow> Inr (sendError ''Missing delimiter after REPS'' h)
                 | Some pipe1 \<Rightarrow>
                     (let cycleDelay = atoi (tl pipe1)
                      in if cycleDelay < 0 then Inr (sendError ''Invalid cycle delay'' h)
                         else case strchr (tl pipe1) (CHR ''|'') of
                                None \<Rightarrow> Inr (sendError ''Missing delimiter after DELAY'' h)
                              | Some pipe2 \<Rightarrow>
                                  (let nSteps = atoi (tl pipe2)
                                   in if nSteps < 1 \<or> nSteps > int MAX_STEPS
                                      then Inr (sendError_responseBuffer overlap
                                             (h\<lparr>responseBuffer := snprintf UART_RESPONSE_BUFFER_SIZE
                                                  (''Invalid steps count (1-'' @ show_int (int MAX_STEPS) @ '')'')\<rparr>))
                                      else case strchr (tl pipe2) (CHR ''|'') of
                                             None \<Rightarrow> Inr (sendError ''Missing delimiter after STEPS'' h)
                                           | Some pipe3 \<Rightarrow>
                                               parse_steps overlap cycleReps cycleDelay nSteps 0
                                                 (tl pipe3) [] [] h))))"

subsection \<open>The other commands\<close>

definition on_driver :: "(ArrayDriver \<Rightarrow> ArrayDriver) \<Rightarrow> UartCommandHandler \<Rightarrow> UartCommandHandler" where
  "on_driver f h = h\<lparr>arrayDriver := f (arrayDriver h)\<rparr>"

text \<open>\<^verbatim>\<open>snprintf(responseBuffer, sizeof(responseBuffer), ...); sendResponse(responseBuffer);\<close>\<close>

definition respond_formatted :: "string \<Rightarrow> UartCommandHandler \<Rightarrow> UartCommandHandler" where
  "respond_formatted s h =
     (let h1 = h\<lparr>responseBuffer := snprintf UART_RESPONSE_BUFFER_SIZE s\<rparr>
      in sendResponse (responseBuffer h1) h1)"

definition level_name :: "bool \<Rightarrow> string" where
  "level_name s = (if s then ''HIGH'' else ''LOW'')"

definition parseSingleElectrodeCommand :: "string \<Rightarrow> UartCommandHandler \<Rightarrow> UartCommandHandler" where
  "parseSingleElectrodeCommand cmd h =
     (let ptr = drop 4 cmd; electrode = atoi ptr
      in if electrode < 1 \<or> electrode > 140 then sendError ''Invalid electrode (1-140)'' h
         else case strchr ptr (CHR ''|'') of
                None \<Rightarrow> sendError ''Missing delimiter'' h
              | Some pipe \<Rightarrow>
                  (let st = atoi (tl pipe)
                   in if st \<noteq> 0 \<and> st \<noteq> 1 then sendError ''Invalid state (0=LOW, 1=HIGH)'' h
                      else sendOK
                             (respond_formatted
                                (''Electrode '' @ show_int electrode @ '' set to '' @ level_name (st \<noteq> 0) @ ''\<newline>'')
                                (on_driver (setElectrodeByNumber (of_int electrode) (st = 1)) h))))"

definition parseAllElectrodesCommand :: "string \<Rightarrow> UartCommandHandler \<Rightarrow> UartCommandHandler" where
  "parseAllElectrodesCommand cmd h =
     (let st = atoi (drop 4 cmd)
      in if st \<noteq> 0 \<and> st \<noteq> 1 then sendError ''Invalid state (0=LOW, 1=HIGH)'' h
         else sendOK
                (if st = 1
                 then sendResponse ''All electrodes set to HIGH\<newline>'' (on_driver setAllElectrodesHigh h)
                 else sendResponse ''All electrodes set to LOW\<newline>'' (on_driver setAllElectrodesLow h)))"

definition parseRowCommand :: "string \<Rightarrow> UartCommandHandler \<Rightarrow> UartCommandHandler" where
  "parseRowCommand cmd h =
     (let ptr = drop 4 cmd; r = atoi ptr
      in if r < 0 \<or> r > 9 then sendError ''Invalid row (0-9)'' h
         else case strchr ptr (CHR ''|'') of
                None \<Rightarrow> sendError ''Missing delimiter'' h
              | Some pipe \<Rightarrow>
                  (let st = atoi (tl pipe)
                   in if st \<noteq> 0 \<and> st \<noteq> 1 then sendError ''Invalid state (0=LOW, 1=HIGH)'' h
                      else sendOK
                             (respond_formatted
                                (''Row '' @ show_int r @ '' set to '' @ level_name (st \<noteq> 0) @ ''\<newline>'')
                                (on_driver (setRowElectrodes (of_int r) (st = 1)) h))))"

definition parseColCommand :: "string \<Rightarrow> UartCommandHandler \<Rightarrow> UartCommandHandler" where
  "parseColCommand cmd h =
     (let ptr = drop 4 cmd; c = atoi ptr
      in if c < 0 \<or> c > 13 then sendError ''Invalid column (0-13)'' h
         else case strchr ptr (CHR ''|'') of
                None \<Rightarrow> sendError ''Missing delimiter'' h
              | Some pipe \<Rightarrow>
                  (let st = atoi (tl pipe)
                   in if st \<noteq> 0 \<and> st \<noteq> 1 then sendError ''Invalid state (0=LOW, 1=HIGH)'' h
                      else sendOK
                             (respond_formatted
                                (''Column '' @ show_int c @ '' set to '' @ level_name (st \<noteq> 0) @ ''\<newline>'')
                                (on_driver (setColElectrodes (of_int c) (st = 1)) h))))"

definition parseTestCommand :: "string \<Rightarrow> UartCommandHandler \<Rightarrow> UartCommandHandler" where
  "parseTestCommand cmd h =
     sendOK (sendResponse ''Test complete\<newline>''
       (on_driver runElectrodeTest
          (sendResponse ''Running electrode test (140 electrodes x 100ms)...\<newline>'' h)))"

definition parseStatusCommand :: "string \<Rightarrow> UartCommandHandler \<Rightarrow> UartCommandHandler" where
  "parseStatusCommand cmd h =
     sendResponse ''Status: OK\<newline>\<newline>''
       (respond_formatted ''Electrodes: 140 (10 rows x 14 columns)\<newline>''
          (sendResponse
             (if isSequenceRunning (arrayDriver h) then ''Sequence: RUNNING\<newline>''
              else ''Sequence: IDLE\<newline>'')
             (sendResponse ''\<newline>=== System Status ===\<newline>'' h)))"

definition parseStopCommand :: "string \<Rightarrow> UartCommandHandler \<Rightarrow> UartCommandHandler" where
  "parseStopCommand cmd h =
     sendOK
       (if isSequenceRunning (arrayDriver h)
        then sendResponse ''Sequence stopped\<newline>'' (on_driver stopSequence h)
        else sendResponse ''No sequence running\<newline>'' h)"

definition parseGetStateCommand :: "string \<Rightarrow> UartCommandHandler \<Rightarrow> UartCommandHandler" where
  "parseGetStateCommand cmd h =
     (let electrode = atoi (drop 4 cmd)
      in if electrode < 1 \<or> electrode > 140 then sendError ''Invalid electrode (1-140)'' h
         else case getRowColFromElectrode (of_int electrode) (arrayDriver h) of
                Some (r, c) \<Rightarrow>
                  sendOK
                    (respond_formatted
                       (''Electrode '' @ show_int electrode @ '' (Row '' @ show_int (uint r)
                          @ '', Col '' @ show_int (uint c) @ ''): ''
                          @ level_name (getElectrodeState r c (arrayDriver h)) @ ''\<newline>'')
                       h)
              | None \<Rightarrow> sendError ''Failed to get electrode state'' h)"

definition parseReloadMappingCommand :: "string \<Rightarrow> UartCommandHandler \<Rightarrow> UartCommandHandler" where
  "parseReloadMappingCommand cmd h =
     sendError ''Not implemented''
       (sendResponse ''Reload mapping not implemented (requires re-initialization)\<newline>'' h)"

definition help_text :: "string list" where
  "help_text =
     [''\<newline>=== ArrayDriver Commands ===\<newline>'',
      ''START|REPS|DELAY|STEPS|ID1,DUR1|ID2,DUR2|...|END - Execute sequence\<newline>'',
      ''SET|ELECTRODE|STATE - Set single electrode (STATE: 0=LOW, 1=HIGH)\<newline>'',
      ''ALL|STATE - Set all electrodes\<newline>'',
      ''ROW|ROW_NUM|STATE - Set all electrodes in row\<newline>'',
      ''COL|COL_NUM|STATE - Set all electrodes in column\<newline>'',
      ''TEST - Run full electrode test\<newline>'',
      ''STATUS - Get system status\<newline>'',
      ''STOP - Stop current sequence\<newline>'',
      ''GET|ELECTRODE - Get electrode state\<newline>'',
      ''RELOAD - Reload JSON mappings\<newline>'',
      ''HELP - Show this help\<newline>\<newline>'']"

definition parseCommand ::
  "(string \<Rightarrow> string) \<Rightarrow> string \<Rightarrow> UartCommandHandler \<Rightarrow> fault + UartCommandHandler" where
  "parseCommand overlap cmd0 h =
     (let cmd = dropWhile (\<lambda>c. c = CHR '' '' \<or> c = CHR 0x09) cmd0
      in if cmd = [] then Inr h
         else if starts_with cmd ''START|'' then parseElectrodeCommand overlap cmd h
         else if starts_with cmd ''SET|'' then Inr (parseSingleElectrodeCommand cmd h)
         else if starts_with cmd ''ALL|'' then Inr (parseAllElectrodesCommand cmd h)
         else if starts_with cmd ''ROW|'' then Inr (parseRowCommand cmd h)
         else if starts_with cmd ''COL|'' then Inr (parseColCommand cmd h)
         else if starts_with cmd ''TEST'' then Inr (parseTestCommand cmd h)
         else if starts_with cmd ''STATUS'' then Inr (parseStatusCommand cmd h)
         else if starts_with cmd ''STOP'' then Inr (parseStopCommand cmd h)
         else if starts_with cmd ''GET|'' then Inr (parseGetStateCommand cmd h)
         else if starts_with cmd ''RELOAD'' then Inr (parseReloadMappingCommand cmd h)
         else if starts_with cmd ''HELP'' then Inr (fold sendResponse help_text h)
         else Inr (sendError ''Unknown command. Type 'HELP' for command list'' h))"

text \<open>\<^verbatim>\<open>parseCommand(cmdBuffer)\<close> reads the buffer as a C string.\<close>

definition processCommands ::
  "(string \<Rightarrow> string) \<Rightarrow> UartCommandHandler \<Rightarrow> fault + UartCommandHandler" where
  "processCommands overlap h =
     (if \<not> cmdComplete h then Inr h
      else case parseCommand overlap (cstr (cmdBuffer h)) h of
             Inl f \<Rightarrow> Inl f
           | Inr h1 \<Rightarrow>
               Inr (h1\<lparr>cmdBufferIndex := 0, cmdComplete := False,
                       cmdBuffer := replicate UART_CMD_BUFFER_SIZE NUL\<rparr>))"

text \<open>
  The caller's loop that the header describes: \<^verbatim>\<open>processByte\<close> for every byte received,
  \<^verbatim>\<open>processCommands\<close> from the main loop after it.
\<close>

fun receive ::
  "(string \<Rightarrow> string) \<Rightarrow> string \<Rightarrow> UartCommandHandler \<Rightarrow> fault + UartCommandHandler" where
  "receive overlap [] h = Inr h"
| "receive overlap (byte # rest) h =
     (case processCommands overlap (processByte byte h) of
        Inl f \<Rightarrow> Inl f
      | Inr h1 \<Rightarrow> receive overlap rest h1)"

text \<open>A handler as \<^verbatim>\<open>init\<close> leaves it, on a given driver.\<close>

definition fresh_handler :: "ArrayDriver \<Rightarrow> UartCommandHandler" where
  "fresh_handler d =
     UartCommandHandler_init
       \<lparr>arrayDriver = d, cmdBuffer = replicate UART_CMD_BUFFER_SIZE NUL, cmdBufferIndex = 0,
        cmdComplete = False, responseBuffer = [],
        sequenceSteps = replicate MAX_STEPS
          \<lparr>step_row = 0, step_col = 0, step_state = False, duration_ms = 0\<rparr>,
        handlerSequence = \<lparr>steps = None, numSteps = 0, cycleCount = 0, cycleDelay_ms = 0\<rparr>\<rparr>"

section \<open>Vocabulary of the properties\<close>

text \<open>An event that switches nothing off: a row driven high, a column driven low, a wait, a reply.\<close>

fun energizes :: "hal_event \<Rightarrow> bool" where
  "energizes (RowLine r level) = level"
| "energizes (ColLine c level) = (\<not> level)"
| "energizes (Delay ms) = True"
| "energizes (Transmit s) = True"

text \<open>
  The outcome of a command that was rejected: from \<open>h\<close>, one reply that begins with
  \<^verbatim>\<open>ERROR: \<close> was formatted into the response buffer and transmitted, and nothing else
  happened (no pin was written, no wait, no field of the driver or of the handler changed).
\<close>

definition rejected :: "UartCommandHandler \<Rightarrow> fault + UartCommandHandler \<Rightarrow> bool" where
  "rejected h r =
     (case r of
        Inl f \<Rightarrow> False
      | Inr h' \<Rightarrow>
          starts_with (responseBuffer h') ''ERROR: ''
          \<and> h' = h\<lparr>arrayDriver := emit [Transmit (responseBuffer h')] (arrayDriver h),
                    responseBuffer := responseBuffer h'\<rparr>)"

text \<open>
  The wire format of the START command, as the comment above \<^verbatim>\<open>parseElectrodeCommand\<close> and
  the protocol table of the specification give it:
  \<^verbatim>\<open>START|reps|delay|steps|id1,dur1|id2,dur2|...|\<close> followed by \<open>tail\<close>, which is \<^verbatim>\<open>END\<close>
  in a complete command. The numbers are written in decimal.
\<close>

definition step_field :: "int \<times> int \<Rightarrow> string" where
  "step_field st = show_int (fst st) @ '','' @ show_int (snd st) @ ''|''"

definition start_line :: "int \<Rightarrow> int \<Rightarrow> int \<Rightarrow> (int \<times> int) list \<Rightarrow> string \<Rightarrow> string" where
  "start_line reps delay n sts tail =
     ''START|'' @ show_int reps @ ''|'' @ show_int delay @ ''|'' @ show_int n @ ''|''
       @ concat (map step_field sts) @ tail"

text \<open>
  Blocking execution in the words of the specification: for \<open>cycleCount\<close> iterations, for
  each step in order, \<open>setElectrode\<close> (bounds-checked, a no-op out of range) on the address the
  electrode number resolves to, with state true, then a wait of the step's hold duration;
  between cycles, but not after the last, a wait of the inter-cycle delay. The functions
  give the hardware events this produces, for steps given as (electrode number, duration).
\<close>

definition spec_step_events :: "ElectrodeMapping_t list \<Rightarrow> int \<times> int \<Rightarrow> hal_event list" where
  "spec_step_events emap st =
     (let e = emap ! (nat (fst st) - 1)
      in (if unat (map_row e) < NUM_ROWS \<and> unat (map_col e) < NUM_COLS
          then [RowLine (unat (map_row e)) True, ColLine (unat (map_col e)) False] else [])
         @ [Delay (of_int (snd st))])"

definition spec_blocking_events ::
  "ElectrodeMapping_t list \<Rightarrow> nat \<Rightarrow> int \<Rightarrow> (int \<times> int) list \<Rightarrow> hal_event list" where
  "spec_blocking_events emap cycles delay sts =
     concat (map (\<lambda>cycle. concat (map (spec_step_events emap) sts)
                          @ (if Suc cycle < cycles then [Delay (of_int delay)] else []))
               [0..<cycles])"

text \<open>A step of a START command, as (electrode number, duration): what the step loop accepts.\<close>

definition valid_step :: "int \<times> int \<Rightarrow> bool" where
  "valid_step st = (1 \<le> fst st \<and> fst st \<le> 140 \<and> 0 \<le> snd st)"

text \<open>The header fields of a START command that the parser accepts.\<close>

definition valid_header :: "int \<Rightarrow> int \<Rightarrow> int \<Rightarrow> bool" where
  "valid_header reps delay n = (1 \<le> reps \<and> reps \<le> 1000 \<and> 0 \<le> delay \<and> 1 \<le> n \<and> n \<le> 256)"

text \<open>
  A list of step fields, read from step index \<open>i\<close> on with \<open>tail\<close> after it, that is a
  complete and valid rest of a START command of \<open>n\<close> steps.
\<close>

definition accepts :: "int \<Rightarrow> nat \<Rightarrow> (int \<times> int) list \<Rightarrow> string \<Rightarrow> bool" where
  "accepts n i sts tail = (sts \<noteq> [] \<and> list_all valid_step sts \<and> int i + int (length sts) = n \<and> tail = ''END'')"

text \<open>
  What has been checked of the two local arrays when the step loop calls
  \<^verbatim>\<open>executeSequence\<close>: \<open>n\<close> entries each, every electrode number from 1 to 140, no duration
  negative.
\<close>

definition validated :: "int \<Rightarrow> int list \<Rightarrow> int list \<Rightarrow> bool" where
  "validated n ids durs =
     (int (length ids) = n \<and> int (length durs) = n
      \<and> list_all (\<lambda>x. 1 \<le> x \<and> x \<le> 140) ids \<and> list_all (\<lambda>x. 0 \<le> x) durs)"

text \<open>
  The step that \<^verbatim>\<open>UartCommandHandler::executeSequence\<close> stores for a valid (electrode number,
  duration), and the hardware events of one step as \<open>run_step\<close> performs it.
\<close>

definition built_step :: "ElectrodeMapping_t list \<Rightarrow> int \<times> int \<Rightarrow> ElectrodeStep_t" where
  "built_step emap st =
     \<lparr>step_row = map_row (emap ! (nat (fst st) - 1)), step_col = map_col (emap ! (nat (fst st) - 1)),
      step_state = True, duration_ms = of_int (snd st)\<rparr>"

definition run_events :: "ElectrodeStep_t \<Rightarrow> hal_event list" where
  "run_events s =
     (if unat (step_row s) < NUM_ROWS \<and> unat (step_col s) < NUM_COLS
      then [RowLine (unat (step_row s)) (step_state s), ColLine (unat (step_col s)) (\<not> step_state s)]
      else [])
     @ [Delay (duration_ms s)]"

text \<open>A driver constructed with neither mapping file present, on zeroed storage.\<close>

definition default_driver :: ArrayDriver where
  "default_driver = ArrayDriver_new zeroed (\<lambda>path. None)"

text \<open>
  A file system holding both mapping files, well formed, with no entry in either.
\<close>

definition empty_maps :: filesystem where
  "empty_maps path =
     (if path = ELECTRODE_MAP_PATH then Some (''{'' @ [dquote] @ ''mapping'' @ [dquote] @ '':{}}'')
      else if path = PIN_MAP_PATH then Some (''{'' @ [dquote] @ ''electrodes'' @ [dquote] @ '':{}}'')
      else None)"

section \<open>Properties of the matrix actuator\<close>

lemma matrix_ok_nth: "matrix_ok m \<Longrightarrow> r < NUM_ROWS \<Longrightarrow> length (m ! r) = NUM_COLS"
  by (simp add: matrix_ok_def list_all_length)

lemma matrix_ok_replicate: "matrix_ok (replicate NUM_ROWS (replicate NUM_COLS v))"
  by (simp add: matrix_ok_def list_all_length)

lemma matrix_ok_store2: "matrix_ok m \<Longrightarrow> matrix_ok (store2 r c v m)"
  by (cases "r < length m") (auto simp: matrix_ok_def list_all_length store2_def nth_list_update)

lemma matrix_ok_zeroed: "matrix_ok (electrodeState zeroed)"
  by (simp add: zeroed_def matrix_ok_replicate)

lemma matrix_ok_setElectrode:
  "matrix_ok (electrodeState d) \<Longrightarrow> matrix_ok (electrodeState (setElectrode r c s d))"
  by (simp add: setElectrode_def setRowColAtomic_def emit_def Let_def matrix_ok_store2)

text \<open>
  C6. On a state array of the declared shape: for a row below 10 and a column below 14,
  \<open>getElectrodeState\<close> right after \<open>setElectrode r c s\<close> returns \<open>s\<close>, for either value of
  \<open>s\<close>; for a row or column out of range \<open>setElectrode\<close> returns the object as it was (state
  array and hardware log untouched), and the model has no failing branch there.
\<close>

theorem setElectrode_getElectrodeState:
  assumes "matrix_ok (electrodeState d)"
  shows "(unat r < NUM_ROWS \<and> unat c < NUM_COLS \<longrightarrow> getElectrodeState r c (setElectrode r c s d) = s)
       \<and> (\<not> (unat r < NUM_ROWS \<and> unat c < NUM_COLS) \<longrightarrow> setElectrode r c s d = d)"
proof (intro conjI impI)
  assume rc: "unat r < NUM_ROWS \<and> unat c < NUM_COLS"
  then have "unat r < length (electrodeState d)" "unat c < length (electrodeState d ! unat r)"
    using assms matrix_ok_nth[OF assms, of "unat r"] by (simp_all add: matrix_ok_def)
  then show "getElectrodeState r c (setElectrode r c s d) = s"
    using rc
    by (simp add: getElectrodeState_def setElectrode_def setRowColAtomic_def emit_def store2_def Let_def)
next
  assume "\<not> (unat r < NUM_ROWS \<and> unat c < NUM_COLS)"
  then show "setElectrode r c s d = d"
    by (auto simp: setElectrode_def)
qed

theorem setElectrode_getElectrodeState_witness:
  "matrix_ok (electrodeState zeroed)
   \<and> getElectrodeState 3 5 (setElectrode 3 5 True zeroed) = True
   \<and> getElectrodeState 9 13 (setElectrode 9 13 False (setElectrode 9 13 True zeroed)) = False
   \<and> setElectrode 10 0 True zeroed = zeroed
   \<and> setElectrode 0 14 True zeroed = zeroed"
proof -
  have ok: "matrix_ok (electrodeState zeroed)" by (rule matrix_ok_zeroed)
  have ok2: "matrix_ok (electrodeState (setElectrode 9 13 True zeroed))"
    by (rule matrix_ok_setElectrode[OF ok])
  show ?thesis
    using ok setElectrode_getElectrodeState[OF ok, of 3 5 True]
      setElectrode_getElectrodeState[OF ok2, of 9 13 False]
      setElectrode_getElectrodeState[OF ok, of 10 0 True]
      setElectrode_getElectrodeState[OF ok, of 0 14 True]
    by simp
qed

text \<open>The nested store loops write every cell of the first \<open>k\<close> rows.\<close>

lemma fold_store2_row:
  assumes "r < length m" "k \<le> length (m ! r)"
  shows "fold (\<lambda>c m2. store2 r c (f c) m2) [0..<k] m = m[r := map f [0..<k] @ drop k (m ! r)]"
  using assms(2)
proof (induction k)
  case 0 then show ?case by simp
next
  case (Suc k)
  have "(map f [0..<k] @ drop k (m ! r))[k := f k] = map f [0..<k] @ (drop k (m ! r))[0 := f k]"
    by (simp add: list_update_append)
  moreover have "(drop k (m ! r))[0 := f k] = f k # drop (Suc k) (m ! r)"
    using Suc.prems by (cases "drop k (m ! r)") (auto simp: drop_Suc drop_tl)
  ultimately show ?case using Suc assms(1) by (simp add: store2_def)
qed

lemma fold_store2_all:
  assumes "k \<le> length m" "\<forall>r<k. length (m ! r) = n"
  shows "fold (\<lambda>r m1. fold (\<lambda>c m2. store2 r c (f r c) m2) [0..<n] m1) [0..<k] m
         = map (\<lambda>r. map (f r) [0..<n]) [0..<k] @ drop k m"
  using assms
proof (induction k)
  case 0 then show ?case by simp
next
  case (Suc k)
  let ?m1 = "map (\<lambda>r. map (f r) [0..<n]) [0..<k] @ drop k m"
  have len: "k < length ?m1" using Suc.prems by simp
  have nth: "?m1 ! k = m ! k" using Suc.prems by (simp add: nth_append)
  have "fold (\<lambda>c m2. store2 k c (f k c) m2) [0..<n] ?m1 = ?m1[k := map (f k) [0..<n] @ drop n (?m1 ! k)]"
    using len nth Suc.prems by (intro fold_store2_row) auto
  also have "\<dots> = ?m1[k := map (f k) [0..<n]]" using nth Suc.prems by simp
  also have "\<dots> = map (\<lambda>r. map (f r) [0..<n]) [0..<k] @ (drop k m)[0 := map (f k) [0..<n]]"
    by (simp add: list_update_append)
  also have "(drop k m)[0 := map (f k) [0..<n]] = map (f k) [0..<n] # drop (Suc k) m"
    using Suc.prems by (cases "drop k m") (auto simp: drop_Suc drop_tl)
  finally show ?case using Suc by simp
qed

lemma fill_state_eq:
  assumes "matrix_ok m"
  shows "fill_state v m = replicate NUM_ROWS (replicate NUM_COLS v)"
proof -
  have "fill_state v m = map (\<lambda>r. map (\<lambda>c. v) [0..<NUM_COLS]) [0..<NUM_ROWS] @ drop NUM_ROWS m"
    unfolding fill_state_def using assms
    by (intro fold_store2_all) (auto simp: matrix_ok_def list_all_length)
  also have "\<dots> = replicate NUM_ROWS (replicate NUM_COLS v)"
    using assms by (simp add: matrix_ok_def map_replicate_const)
  finally show ?thesis .
qed

lemma getPattern_eq:
  assumes "matrix_ok p"
  shows "getPattern d p = map (\<lambda>r. map (\<lambda>c. electrodeState d ! r ! c) [0..<NUM_COLS]) [0..<NUM_ROWS]"
proof -
  have "getPattern d p
        = map (\<lambda>r. map (\<lambda>c. electrodeState d ! r ! c) [0..<NUM_COLS]) [0..<NUM_ROWS] @ drop NUM_ROWS p"
    unfolding getPattern_def using assms
    by (intro fold_store2_all) (auto simp: matrix_ok_def list_all_length)
  then show ?thesis using assms by (simp add: matrix_ok_def)
qed

lemma getPattern_nth:
  assumes "matrix_ok p" "r < NUM_ROWS" "c < NUM_COLS"
  shows "getPattern d p ! r ! c = electrodeState d ! r ! c"
proof -
  have "getPattern d p ! r = map (\<lambda>c. electrodeState d ! r ! c) [0..<NUM_COLS]"
    using assms(2) by (simp only: getPattern_eq[OF assms(1)] nth_map_upt) simp
  then show ?thesis using assms(3) by simp
qed

text \<open>
  C7. With the state array and the caller's pattern array of the declared shape: after
  \<open>setAllElectrodesHigh\<close> the pattern \<open>getPattern\<close> fills in is true at every row below 10
  and column below 14, and after \<open>setAllElectrodesLow\<close> it is false at every one.
\<close>

theorem setAll_getPattern:
  assumes "matrix_ok (electrodeState d)" "matrix_ok p" "r < NUM_ROWS" "c < NUM_COLS"
  shows "getPattern (setAllElectrodesHigh d) p ! r ! c = True
       \<and> getPattern (setAllElectrodesLow d) p ! r ! c = False"
  using assms
  by (simp add: getPattern_nth setAllElectrodesHigh_def setAllElectrodesLow_def emit_def Let_def
      fill_state_eq)

theorem setAll_getPattern_witness:
  "matrix_ok (electrodeState zeroed)
   \<and> matrix_ok (replicate NUM_ROWS (replicate NUM_COLS False))
   \<and> (9::nat) < NUM_ROWS \<and> (13::nat) < NUM_COLS
   \<and> getPattern (setAllElectrodesHigh zeroed) (replicate NUM_ROWS (replicate NUM_COLS False)) ! 9 ! 13 = True
   \<and> getPattern (setAllElectrodesLow zeroed) (replicate NUM_ROWS (replicate NUM_COLS False)) ! 9 ! 13 = False"
proof -
  have r: "(9::nat) < NUM_ROWS" and c: "(13::nat) < NUM_COLS" by simp_all
  show ?thesis
    using setAll_getPattern[OF matrix_ok_zeroed matrix_ok_replicate r c, of False]
      matrix_ok_zeroed matrix_ok_replicate[of False]
    by simp
qed

section \<open>Properties of the sequence engine\<close>

text \<open>
  C8. In every state, right after \<open>stopSequence\<close> the query \<open>isSequenceRunning\<close> returns
  false, the electrode state array is what it was, and nothing was written to the hardware.
\<close>

theorem stopSequence_idle:
  "isSequenceRunning (stopSequence d) = False
   \<and> electrodeState (stopSequence d) = electrodeState d
   \<and> hal (stopSequence d) = hal d"
  by (simp add: isSequenceRunning_def stopSequence_def)

lemma cycles_loop_zero_steps:
  assumes "numSteps sq = 0"
  shows "cycles_loop sq arr cs d
         = Inr (d\<lparr>hal := hal d @ map (\<lambda>cycle. Delay (cycleDelay_ms sq))
                  (filter (\<lambda>cycle. (of_nat cycle :: uint32_t) < cycleCount sq - 1) cs)\<rparr>)"
  using assms
  by (induction cs arbitrary: d) (simp_all add: HAL_Delay_def emit_def)

lemma of_nat_less_pred_iff:
  fixes w :: uint32_t
  assumes "cycle < unat w"
  shows "((of_nat cycle :: uint32_t) < w - 1) = (cycle < unat w - 1)"
proof -
  have "w \<noteq> 0" using assms by (auto simp: unat_gt_0[symmetric])
  then have "unat (w - 1) = unat w - 1" by (rule unat_minus_one)
  moreover have "unat (of_nat cycle :: uint32_t) = cycle"
    using assms by (intro le_unat_uoi[of _ w]) simp
  ultimately show ?thesis by (simp add: word_less_nat_alt)
qed

lemma filter_before_last:
  fixes w :: uint32_t
  shows "filter (\<lambda>cycle. (of_nat cycle :: uint32_t) < w - 1) [0..<unat w] = [0..<unat w - 1]"
proof -
  have "filter (\<lambda>cycle. (of_nat cycle :: uint32_t) < w - 1) [0..<unat w]
        = filter (\<lambda>cycle. cycle < unat w - 1) [0..<unat w]"
    by (rule filter_cong) (auto simp: of_nat_less_pred_iff)
  also have "\<dots> = [0..<unat w - 1]"
  proof (cases "unat w")
    case 0 then show ?thesis by simp
  next
    case (Suc k)
    have "filter (\<lambda>cycle. cycle < k) [0..<k] = [0..<k]" by (rule filter_True) simp
    then show ?thesis using Suc by simp
  qed
  finally show ?thesis .
qed


text \<open>
  C4, as stated, fails for the non-blocking start: a sequence of zero steps whose step list
  is not the null pointer takes an idle engine to Running.
\<close>

theorem zero_step_async_counterexample:
  "\<not> isSequenceRunning zeroed
   \<and> isSequenceRunning
        (executeSequenceAsync
           (Some \<lparr>steps = Some [], numSteps = 0, cycleCount = 1, cycleDelay_ms = 0\<rparr>) 0 zeroed)"
  by (simp add: isSequenceRunning_def executeSequenceAsync_def zeroed_def)

text \<open>
  C4, amended. For a sequence with zero steps or a null step list, neither function writes
  an electrode: \<open>executeSequenceAsync\<close> leaves the electrode state array and the hardware
  untouched (for any sequence), and the blocking \<open>executeSequence\<close> returns the object as it
  was for a null sequence or a null step list and, for zero steps with a step list that is
  not null, only waits the inter-cycle delay between cycles. The blocking \<open>executeSequence\<close>
  leaves the run state as it was in all these cases; \<open>executeSequenceAsync\<close> leaves it as it
  was when the sequence or its step list is null.
\<close>

theorem null_or_zero_step_sequence:
  "(sequence = None \<or> (\<exists>sq. sequence = Some sq \<and> steps sq = None)
      \<longrightarrow> executeSequence sequence d = Inr d \<and> executeSequenceAsync sequence tick d = d)
   \<and> (sequence = Some sq \<and> steps sq = Some arr \<and> numSteps sq = 0
      \<longrightarrow> executeSequence sequence d
            = Inr (d\<lparr>hal := hal d @ replicate (unat (cycleCount sq) - 1) (Delay (cycleDelay_ms sq))\<rparr>))
   \<and> hal (executeSequenceAsync sequence tick d) = hal d
   \<and> electrodeState (executeSequenceAsync sequence tick d) = electrodeState d"
proof (intro conjI impI)
  assume "sequence = None \<or> (\<exists>sq. sequence = Some sq \<and> steps sq = None)"
  then show "executeSequence sequence d = Inr d" "executeSequenceAsync sequence tick d = d"
    by (auto simp: executeSequence_def executeSequenceAsync_def)
next
  assume a: "sequence = Some sq \<and> steps sq = Some arr \<and> numSteps sq = 0"
  then have "executeSequence sequence d = cycles_loop sq arr [0..<unat (cycleCount sq)] d"
    by (simp add: executeSequence_def)
  also have "\<dots> = Inr (d\<lparr>hal := hal d @ map (\<lambda>cycle. Delay (cycleDelay_ms sq)) [0..<unat (cycleCount sq) - 1]\<rparr>)"
    using a by (simp add: cycles_loop_zero_steps filter_before_last)
  finally show "executeSequence sequence d
            = Inr (d\<lparr>hal := hal d @ replicate (unat (cycleCount sq) - 1) (Delay (cycleDelay_ms sq))\<rparr>)"
    by (simp add: map_replicate_const)
next
  show "hal (executeSequenceAsync sequence tick d) = hal d"
    by (simp add: executeSequenceAsync_def split: option.splits)
next
  show "electrodeState (executeSequenceAsync sequence tick d) = electrodeState d"
    by (simp add: executeSequenceAsync_def split: option.splits)
qed

theorem null_or_zero_step_sequence_witness:
  "executeSequence None zeroed = Inr zeroed
   \<and> executeSequenceAsync None 7 zeroed = zeroed
   \<and> executeSequence (Some \<lparr>steps = None, numSteps = 2, cycleCount = 3, cycleDelay_ms = 50\<rparr>) zeroed = Inr zeroed
   \<and> executeSequenceAsync (Some \<lparr>steps = None, numSteps = 2, cycleCount = 3, cycleDelay_ms = 50\<rparr>) 7 zeroed = zeroed
   \<and> executeSequence (Some \<lparr>steps = Some [], numSteps = 0, cycleCount = 3, cycleDelay_ms = 50\<rparr>) zeroed
       = Inr (zeroed\<lparr>hal := [Delay 50, Delay 50]\<rparr>)
   \<and> hal (executeSequenceAsync (Some \<lparr>steps = Some [], numSteps = 0, cycleCount = 3, cycleDelay_ms = 50\<rparr>) 7 zeroed)
       = []
   \<and> electrodeState
        (executeSequenceAsync (Some \<lparr>steps = Some [], numSteps = 0, cycleCount = 3, cycleDelay_ms = 50\<rparr>) 7 zeroed)
       = replicate NUM_ROWS (replicate NUM_COLS False)"
proof -
  let ?null = "\<lparr>steps = None, numSteps = 2, cycleCount = 3, cycleDelay_ms = 50\<rparr>"
  let ?empty = "\<lparr>steps = Some [], numSteps = 0, cycleCount = 3, cycleDelay_ms = 50\<rparr>"
  have a: "executeSequence None zeroed = Inr zeroed \<and> executeSequenceAsync None 7 zeroed = zeroed"
    using null_or_zero_step_sequence[of None zeroed 7] by simp
  have b: "executeSequence (Some ?null) zeroed = Inr zeroed
           \<and> executeSequenceAsync (Some ?null) 7 zeroed = zeroed"
    using null_or_zero_step_sequence[of "Some ?null" zeroed 7] by simp
  have h: "hal zeroed = []" "electrodeState zeroed = replicate NUM_ROWS (replicate NUM_COLS False)"
    by (simp_all add: zeroed_def)
  have n: "replicate 2 (Delay 50) = [Delay 50, Delay 50]" by (simp add: numeral_2_eq_2)
  have c: "executeSequence (Some ?empty) zeroed = Inr (zeroed\<lparr>hal := [Delay 50, Delay 50]\<rparr>)
           \<and> hal (executeSequenceAsync (Some ?empty) 7 zeroed) = []
           \<and> electrodeState (executeSequenceAsync (Some ?empty) 7 zeroed)
               = replicate NUM_ROWS (replicate NUM_COLS False)"
    using null_or_zero_step_sequence[of "Some ?empty" zeroed 7 ?empty "[]"] h
    by (simp add: n)
  show ?thesis using a b c by simp
qed

section \<open>Properties of the electrode map\<close>

lemma fold_fixed: "(\<And>x. x \<in> set xs \<Longrightarrow> f x a = a) \<Longrightarrow> fold f xs a = a"
  by (induction xs) simp_all

lemma strstr_no_quote: "dquote \<notin> set s \<Longrightarrow> strstr s (dquote # k) = None"
  by (induction s) auto

lemma electrode_entry_no_key: "dquote \<notin> set openBrace \<Longrightarrow> electrode_entry openBrace e d = d"
  by (simp add: electrode_entry_def snprintf_def strstr_no_quote)

lemma pin_entry_no_key: "dquote \<notin> set openBrace \<Longrightarrow> pin_entry openBrace r c d = d"
  by (simp add: pin_entry_def snprintf_def strstr_no_quote)

lemma parseElectrodeMapJSON_empty:
  "parseElectrodeMapJSON (''{'' @ [dquote] @ ''mapping'' @ [dquote] @ '':{}}'') d = (True, d)"
proof -
  have "fold (electrode_entry ''{}}'') [1..<Suc NUM_ELECTRODES] d = d"
    by (rule fold_fixed) (simp add: electrode_entry_no_key)
  then show ?thesis by (simp add: parseElectrodeMapJSON_def)
qed

lemma clear_pins:
  "fold (\<lambda>i d0. d0\<lparr>pcieToRow := (pcieToRow d0)[i := 0], pcieToCol := (pcieToCol d0)[i := 0]\<rparr>) xs d
   = d\<lparr>pcieToRow := fold (\<lambda>i l. l[i := 0]) xs (pcieToRow d),
        pcieToCol := fold (\<lambda>i l. l[i := 0]) xs (pcieToCol d)\<rparr>"
  by (induction xs arbitrary: d) simp_all

lemma fold_store_row:
  "k \<le> length line \<Longrightarrow> fold (\<lambda>c l. l[c := f c]) [0..<k] line = map f [0..<k] @ drop k line"
proof (induction k)
  case 0 then show ?case by simp
next
  case (Suc k)
  have "(map f [0..<k] @ drop k line)[k := f k] = map f [0..<k] @ (drop k line)[0 := f k]"
    by (simp add: list_update_append)
  moreover have "(drop k line)[0 := f k] = f k # drop (Suc k) line"
    using Suc.prems by (cases "drop k line") (auto simp: drop_Suc drop_tl)
  ultimately show ?case using Suc by simp
qed

lemma clear_list:
  "length l = NUM_ELECTRODES \<Longrightarrow> fold (\<lambda>i l. l[i := (0::uint8_t)]) [0..<NUM_ELECTRODES] l = replicate NUM_ELECTRODES 0"
  using fold_store_row[of NUM_ELECTRODES l "\<lambda>i. 0"] by (simp add: map_replicate_const)

lemma parsePinMapJSON_empty:
  assumes "length (pcieToRow d) = NUM_ELECTRODES" "length (pcieToCol d) = NUM_ELECTRODES"
  shows "parsePinMapJSON (''{'' @ [dquote] @ ''electrodes'' @ [dquote] @ '':{}}'') d
         = (True, fold resolve_entry [1..<Suc NUM_ELECTRODES]
                    (d\<lparr>pcieToRow := replicate NUM_ELECTRODES 0, pcieToCol := replicate NUM_ELECTRODES 0\<rparr>))"
proof -
  have pins: "fold (\<lambda>r d0. fold (\<lambda>c. pin_entry ''{}}'' r c) [0..<NUM_COLS] d0) [0..<NUM_ROWS] x = x" for x
    by (intro fold_fixed) (simp add: pin_entry_no_key)
  show ?thesis
    using assms by (simp add: parsePinMapJSON_def clear_pins clear_list pins)
qed


lemma resolve_entry_zero:
  assumes "electrodeMap d = replicate NUM_ELECTRODES \<lparr>map_row = 0, map_col = 0\<rparr>"
    "pcieToRow d = replicate NUM_ELECTRODES 0" "pcieToCol d = replicate NUM_ELECTRODES 0"
    "1 \<le> e" "e \<le> NUM_ELECTRODES"
  shows "resolve_entry e d = d"
proof -
  have "(electrodeMap d)[e - 1 := \<lparr>map_row = 0, map_col = 0\<rparr>] = electrodeMap d"
    using assms by (intro list_update_same_conv[THEN iffD2]) simp_all
  then show ?thesis using assms by (simp add: resolve_entry_def)
qed

lemma resolve_entry_ff:
  assumes "electrodeMap d = replicate NUM_ELECTRODES \<lparr>map_row = 255, map_col = 255\<rparr>"
    "1 \<le> e" "e \<le> NUM_ELECTRODES"
  shows "resolve_entry e d = d"
  using assms by (simp add: resolve_entry_def)

lemma default_map_eq:
  assumes "length m = NUM_ELECTRODES"
  shows "default_map m
         = map (\<lambda>i. \<lparr>map_row = of_nat (i div NUM_COLS), map_col = of_nat (i mod NUM_COLS)\<rparr>) [0..<NUM_ELECTRODES]"
  using fold_store_row[of NUM_ELECTRODES m
      "\<lambda>i. \<lparr>map_row = of_nat (i div NUM_COLS), map_col = of_nat (i mod NUM_COLS)\<rparr>"] assms
  by (simp add: default_map_def)

lemma new_zeroed_empty_maps: "ArrayDriver_new zeroed empty_maps = zeroed"
proof -
  let ?d0 = "zeroed\<lparr>electrodeState := fill_state False (electrodeState zeroed),
                sequenceRunning := False, currentStep := 0, stepStartTime := 0, currentSequence := None\<rparr>"
  have d0: "?d0 = zeroed"
    by (simp add: fill_state_eq[OF matrix_ok_zeroed]) (simp add: zeroed_def)
  have z: "zeroed\<lparr>pcieToRow := replicate NUM_ELECTRODES 0, pcieToCol := replicate NUM_ELECTRODES 0\<rparr> = zeroed"
    by (simp add: zeroed_def)
  have r: "fold resolve_entry [1..<Suc NUM_ELECTRODES] zeroed = zeroed"
    by (rule fold_fixed, rule resolve_entry_zero) (simp_all add: zeroed_def)
  have l1: "loadElectrodeMap empty_maps ELECTRODE_MAP_PATH zeroed = (True, zeroed)"
    by (simp add: loadElectrodeMap_def readFile_def empty_maps_def cstr_def parseElectrodeMapJSON_empty[simplified])
  have l2: "loadPinMap empty_maps PIN_MAP_PATH zeroed = (True, zeroed)"
    using parsePinMapJSON_empty[of zeroed] z r
    by (simp add: loadPinMap_def readFile_def empty_maps_def cstr_def ELECTRODE_MAP_PATH_def PIN_MAP_PATH_def)
      (simp add: zeroed_def)
  show ?thesis
    unfolding ArrayDriver_new_def d0 Let_def l1 by (simp add: l2)
qed


lemma new_stale_empty_maps:
  "ArrayDriver_new (zeroed\<lparr>electrodeMap := replicate NUM_ELECTRODES \<lparr>map_row = 255, map_col = 255\<rparr>\<rparr>) empty_maps
   = zeroed\<lparr>electrodeMap := replicate NUM_ELECTRODES \<lparr>map_row = 255, map_col = 255\<rparr>\<rparr>"
proof -
  let ?raw = "zeroed\<lparr>electrodeMap := replicate NUM_ELECTRODES \<lparr>map_row = 255, map_col = 255\<rparr>\<rparr>"
  let ?d0 = "?raw\<lparr>electrodeState := fill_state False (electrodeState ?raw),
                sequenceRunning := False, currentStep := 0, stepStartTime := 0, currentSequence := None\<rparr>"
  have d0: "?d0 = ?raw"
    using fill_state_eq[OF matrix_ok_zeroed, of False] by (simp add: zeroed_def)
  have z: "?raw\<lparr>pcieToRow := replicate NUM_ELECTRODES 0, pcieToCol := replicate NUM_ELECTRODES 0\<rparr> = ?raw"
    by (simp add: zeroed_def)
  have r: "fold resolve_entry [1..<Suc NUM_ELECTRODES] ?raw = ?raw"
    by (rule fold_fixed, rule resolve_entry_ff) simp_all
  have l1: "loadElectrodeMap empty_maps ELECTRODE_MAP_PATH ?raw = (True, ?raw)"
    by (simp add: loadElectrodeMap_def readFile_def empty_maps_def cstr_def parseElectrodeMapJSON_empty[simplified])
  have l2: "loadPinMap empty_maps PIN_MAP_PATH ?raw = (True, ?raw)"
    using parsePinMapJSON_empty[of ?raw] z r
    by (simp add: loadPinMap_def readFile_def empty_maps_def cstr_def ELECTRODE_MAP_PATH_def PIN_MAP_PATH_def)
      (simp add: zeroed_def)
  show ?thesis
    unfolding ArrayDriver_new_def d0 Let_def l1 by (simp add: l2)
qed

lemma length_electrode_entry [simp]:
  "length (electrodeMap (electrode_entry ob e d)) = length (electrodeMap d)"
  by (simp add: electrode_entry_def Let_def split: option.splits)

lemma length_pin_entry [simp]:
  "length (electrodeMap (pin_entry ob r c d)) = length (electrodeMap d)"
  by (simp add: pin_entry_def Let_def split: option.splits)

lemma length_resolve_entry [simp]:
  "length (electrodeMap (resolve_entry e d)) = length (electrodeMap d)"
  by (simp add: resolve_entry_def Let_def)

lemma length_fold_preserved:
  "(\<And>x a. length (electrodeMap (f x a)) = length (electrodeMap a))
   \<Longrightarrow> length (electrodeMap (fold f xs d)) = length (electrodeMap d)"
  by (induction xs arbitrary: d) simp_all

lemma length_loadElectrodeMap:
  "length (electrodeMap (snd (loadElectrodeMap fs path d))) = length (electrodeMap d)"
  by (simp add: loadElectrodeMap_def parseElectrodeMapJSON_def length_fold_preserved
      split: option.splits)

lemma length_loadPinMap:
  "length (electrodeMap (snd (loadPinMap fs path d))) = length (electrodeMap d)"
  by (simp add: loadPinMap_def parsePinMapJSON_def Let_def length_fold_preserved clear_pins
      split: option.splits)

lemma new_absent_sources:
  assumes "fs ELECTRODE_MAP_PATH = None \<or> fs PIN_MAP_PATH = None"
    and "length (electrodeMap raw) = NUM_ELECTRODES"
  shows "electrodeMap (ArrayDriver_new raw fs)
         = map (\<lambda>i. \<lparr>map_row = of_nat (i div NUM_COLS), map_col = of_nat (i mod NUM_COLS)\<rparr>) [0..<NUM_ELECTRODES]"
proof -
  let ?d0 = "raw\<lparr>electrodeState := fill_state False (electrodeState raw),
                sequenceRunning := False, currentStep := 0, stepStartTime := 0, currentSequence := None\<rparr>"
  obtain ok1 d1 where l1: "loadElectrodeMap fs ELECTRODE_MAP_PATH ?d0 = (ok1, d1)" by fastforce
  obtain ok2 d2 where l2: "loadPinMap fs PIN_MAP_PATH d1 = (ok2, d2)" by fastforce
  have len: "length (electrodeMap d2) = NUM_ELECTRODES"
    using length_loadPinMap[of fs PIN_MAP_PATH d1] length_loadElectrodeMap[of fs ELECTRODE_MAP_PATH ?d0]
      l1 l2 assms(2) by simp
  have "\<not> (ok1 \<and> ok2)"
    using assms(1) l1 l2 by (auto simp: loadElectrodeMap_def loadPinMap_def readFile_def)
  then have "ArrayDriver_new raw fs = d2\<lparr>electrodeMap := default_map (electrodeMap d2)\<rparr>"
    using l1 l2 by (simp add: ArrayDriver_new_def Let_def)
  then show ?thesis using default_map_eq[OF len] by simp
qed

lemma getRowColFromElectrode_absent_sources:
  assumes "fs ELECTRODE_MAP_PATH = None \<or> fs PIN_MAP_PATH = None"
    and "length (electrodeMap raw) = NUM_ELECTRODES"
    and "1 \<le> unat n" "unat n \<le> NUM_ELECTRODES"
  shows "getRowColFromElectrode n (ArrayDriver_new raw fs)
         = Some (of_nat ((unat n - 1) div NUM_COLS), of_nat ((unat n - 1) mod NUM_COLS))"
proof -
  have "unat n - 1 < NUM_ELECTRODES" using assms(3,4) by simp
  then show ?thesis
    using assms(3,4) by (simp add: getRowColFromElectrode_def new_absent_sources[OF assms(1,2)] del: upt_Suc)
qed

text \<open>
  C1, evaluated where it fails. Both mapping files are present and hold no entry. On storage
  that was zero before construction electrode 15 resolves to (0, 0); on storage whose map
  bytes were 0xFF it resolves to (255, 255), outside the matrix. Only when a file is
  absent does it resolve to the default (1, 0).
\<close>

theorem incomplete_sources_not_defaulted:
  "getRowColFromElectrode 15 (ArrayDriver_new zeroed empty_maps) = Some (0, 0)
   \<and> getRowColFromElectrode 15
        (ArrayDriver_new (zeroed\<lparr>electrodeMap := replicate NUM_ELECTRODES \<lparr>map_row = 255, map_col = 255\<rparr>\<rparr>)
           empty_maps) = Some (255, 255)
   \<and> getRowColFromElectrode 15 (ArrayDriver_new zeroed (\<lambda>path. None)) = Some (1, 0)"
proof -
  have a: "getRowColFromElectrode 15 (ArrayDriver_new zeroed empty_maps) = Some (0, 0)"
    by (simp add: new_zeroed_empty_maps) (simp add: getRowColFromElectrode_def zeroed_def)
  have b: "getRowColFromElectrode 15
        (ArrayDriver_new (zeroed\<lparr>electrodeMap := replicate NUM_ELECTRODES \<lparr>map_row = 255, map_col = 255\<rparr>\<rparr>)
           empty_maps) = Some (255, 255)"
    by (simp add: new_stale_empty_maps) (simp add: getRowColFromElectrode_def)
  have c: "getRowColFromElectrode 15 (ArrayDriver_new zeroed (\<lambda>path. None)) = Some (1, 0)"
    using getRowColFromElectrode_absent_sources[of "\<lambda>path. None" zeroed 15]
    by (simp add: zeroed_def)
  show ?thesis using a b c by simp
qed

section \<open>Properties of the command handler\<close>

lemma unat_of_int_electrode:
  assumes "1 \<le> e" "e \<le> 255"
  shows "unat (of_int e :: uint8_t) = nat e"
proof -
  have "uint (word_of_int e :: uint8_t) = e mod 2 ^ 8" by (simp add: uint_word_of_int)
  also have "\<dots> = e" using assms by simp
  finally show ?thesis by (simp add: unat_eq_nat_uint del: uint_word_of_int_eq)
qed

lemma getRowColFromElectrode_in_range:
  assumes "1 \<le> e" "e \<le> 140"
  shows "getRowColFromElectrode (of_int e) d
         = Some (map_row (electrodeMap d ! (nat e - 1)), map_col (electrodeMap d ! (nat e - 1)))"
  using assms unat_of_int_electrode[of e] by (simp add: getRowColFromElectrode_def)

lemma parseCommand_GET:
  "parseCommand overlap (''GET|'' @ rest) h = Inr (parseGetStateCommand (''GET|'' @ rest) h)"
  by (simp add: parseCommand_def starts_with_def)

text \<open>
  C10. For a command \<^verbatim>\<open>GET|...\<close> whose electrode field is read by \<open>atoi\<close> as a value from 1
  to 140, \<open>getRowColFromElectrode\<close> returns a row and a column, and the command transmits the
  state text for them followed by \<^verbatim>\<open>OK\<close>, and nothing else: the branch that reports
  \<^verbatim>\<open>Failed to get electrode state\<close> is not taken.
\<close>

theorem get_in_range_replies_state:
  assumes "1 \<le> atoi rest" "atoi rest \<le> 140"
  shows "\<exists>r c h'. getRowColFromElectrode (of_int (atoi rest)) (arrayDriver h) = Some (r, c)
           \<and> parseCommand overlap (''GET|'' @ rest) h = Inr h'
           \<and> hal (arrayDriver h')
               = hal (arrayDriver h)
                 @ [Transmit (snprintf UART_RESPONSE_BUFFER_SIZE
                      (''Electrode '' @ show_int (atoi rest) @ '' (Row '' @ show_int (uint r)
                         @ '', Col '' @ show_int (uint c) @ ''): ''
                         @ level_name (getElectrodeState r c (arrayDriver h)) @ ''\<newline>'')),
                    Transmit ''OK\<newline>'']"
proof -
  let ?e = "atoi rest"
  let ?r = "map_row (electrodeMap (arrayDriver h) ! (nat ?e - 1))"
  let ?c = "map_col (electrodeMap (arrayDriver h) ! (nat ?e - 1))"
  have res: "getRowColFromElectrode (of_int ?e) (arrayDriver h) = Some (?r, ?c)"
    using assms by (rule getRowColFromElectrode_in_range)
  have "parseGetStateCommand (''GET|'' @ rest) h
        = sendOK (respond_formatted
            (''Electrode '' @ show_int ?e @ '' (Row '' @ show_int (uint ?r)
               @ '', Col '' @ show_int (uint ?c) @ ''): ''
               @ level_name (getElectrodeState ?r ?c (arrayDriver h)) @ ''\<newline>'') h)"
    using assms res by (simp add: parseGetStateCommand_def Let_def)
  then have "hal (arrayDriver (parseGetStateCommand (''GET|'' @ rest) h))
        = hal (arrayDriver h)
          @ [Transmit (snprintf UART_RESPONSE_BUFFER_SIZE
                (''Electrode '' @ show_int ?e @ '' (Row '' @ show_int (uint ?r)
                   @ '', Col '' @ show_int (uint ?c) @ ''): ''
                   @ level_name (getElectrodeState ?r ?c (arrayDriver h)) @ ''\<newline>'')),
             Transmit ''OK\<newline>'']"
    by (simp add: sendOK_def respond_formatted_def sendResponse_def emit_def Let_def)
  with res parseCommand_GET[of overlap rest h] show ?thesis by blast
qed

theorem get_in_range_replies_state_witness:
  "1 \<le> atoi ''15'' \<and> atoi ''15'' \<le> 140
   \<and> (\<exists>r c h'. getRowColFromElectrode (of_int (atoi ''15'')) (arrayDriver (fresh_handler zeroed)) = Some (r, c)
           \<and> parseCommand id ''GET|15'' (fresh_handler zeroed) = Inr h'
           \<and> hal (arrayDriver h')
               = hal (arrayDriver (fresh_handler zeroed))
                 @ [Transmit (snprintf UART_RESPONSE_BUFFER_SIZE
                      (''Electrode '' @ show_int (atoi ''15'') @ '' (Row '' @ show_int (uint r)
                         @ '', Col '' @ show_int (uint c) @ ''): ''
                         @ level_name (getElectrodeState r c (arrayDriver (fresh_handler zeroed))) @ ''\<newline>'')),
                    Transmit ''OK\<newline>''])"
proof -
  have a: "atoi ''15'' = 15" by code_simp
  then have b: "1 \<le> atoi ''15''" "atoi ''15'' \<le> 140" by simp_all
  show ?thesis
    using b get_in_range_replies_state[OF b, of "fresh_handler zeroed" id] by simp
qed

lemma receive_append:
  "receive ov (xs @ ys) h = (case receive ov xs h of Inl f \<Rightarrow> Inl f | Inr h1 \<Rightarrow> receive ov ys h1)"
  by (induction xs arbitrary: h) (simp_all split: sum.splits)

lemma unat_index_Suc:
  fixes i :: uint16_t
  assumes "unat i < 2047"
  shows "unat (i + 1) = Suc (unat i)"
  using assms by (simp add: unat_word_ariths)

lemma receive_plain:
  assumes "\<not> cmdComplete h" "\<forall>b\<in>set bs. b \<noteq> CHR 0x0A \<and> b \<noteq> CHR 0x0D"
    "unat (cmdBufferIndex h) + length bs \<le> 2047" "length (cmdBuffer h) = UART_CMD_BUFFER_SIZE"
  shows "receive ov bs h
         = Inr (h\<lparr>cmdBuffer := take (unat (cmdBufferIndex h)) (cmdBuffer h) @ bs
                               @ drop (unat (cmdBufferIndex h) + length bs) (cmdBuffer h),
                  cmdBufferIndex := cmdBufferIndex h + of_nat (length bs)\<rparr>)"
  using assms
proof (induction bs arbitrary: h)
  case Nil
  then show ?case by simp
next
  case (Cons b bs)
  let ?i = "unat (cmdBufferIndex h)"
  let ?h1 = "h\<lparr>cmdBuffer := (cmdBuffer h)[?i := b], cmdBufferIndex := cmdBufferIndex h + 1\<rparr>"
  have i: "?i < 2047" using Cons.prems(3) by simp
  have pb: "processByte b h = ?h1"
    using Cons.prems(2) i by (simp add: processByte_def)
  have pc: "processCommands ov ?h1 = Inr ?h1"
    using Cons.prems(1) by (simp add: processCommands_def)
  have i1: "unat (cmdBufferIndex ?h1) = Suc ?i"
    using unat_index_Suc[OF i] by simp
  have "receive ov (b # bs) h = receive ov bs ?h1"
    by (simp add: pb pc)
  also have "\<dots> = Inr (?h1\<lparr>cmdBuffer := take (Suc ?i) (cmdBuffer ?h1) @ bs
                               @ drop (Suc ?i + length bs) (cmdBuffer ?h1),
                  cmdBufferIndex := cmdBufferIndex ?h1 + of_nat (length bs)\<rparr>)"
    using Cons.IH[of ?h1] Cons.prems i1 by simp
  also have "take (Suc ?i) (cmdBuffer ?h1) = take ?i (cmdBuffer h) @ [b]"
    using i Cons.prems(4) by (simp add: take_Suc_conv_app_nth)
  also have "drop (Suc ?i + length bs) (cmdBuffer ?h1) = drop (?i + length (b # bs)) (cmdBuffer h)"
    by simp
  finally show ?case by (simp add: add.assoc)
qed

lemma cstr_terminated: "NUL \<notin> set xs \<Longrightarrow> cstr (xs @ NUL # ys) = xs"
  by (simp add: cstr_def takeWhile_append)

lemma receive_line:
  assumes "\<not> cmdComplete h" "cmdBufferIndex h = 0" "length (cmdBuffer h) = UART_CMD_BUFFER_SIZE"
    "line \<noteq> []" "length line \<le> 2046" "\<forall>b\<in>set line. b \<noteq> CHR 0x0A \<and> b \<noteq> CHR 0x0D \<and> b \<noteq> NUL"
  shows "receive ov (line @ [CHR 0x0A]) h
         = (case parseCommand ov line
                   (h\<lparr>cmdBuffer := line @ NUL # drop (Suc (length line)) (cmdBuffer h),
                      cmdBufferIndex := of_nat (length line), cmdComplete := True\<rparr>) of
              Inl f \<Rightarrow> Inl f
            | Inr h1 \<Rightarrow> Inr (h1\<lparr>cmdBufferIndex := 0, cmdComplete := False,
                               cmdBuffer := replicate UART_CMD_BUFFER_SIZE NUL\<rparr>))"
proof -
  let ?n = "length line"
  let ?h1 = "h\<lparr>cmdBuffer := line @ drop ?n (cmdBuffer h), cmdBufferIndex := of_nat ?n\<rparr>"
  have plain: "receive ov line h = Inr ?h1"
    using receive_plain[of h line ov] assms by simp
  have n: "unat (of_nat ?n :: uint16_t) = ?n"
    using assms(5) by (simp add: unat_of_nat)
  have upd: "(line @ drop ?n (cmdBuffer h))[?n := NUL] = line @ NUL # drop (Suc ?n) (cmdBuffer h)"
    using assms(3,5) by (simp add: list_update_append Cons_nth_drop_Suc[symmetric])
  let ?h2 = "h\<lparr>cmdBuffer := line @ NUL # drop (Suc ?n) (cmdBuffer h),
                cmdBufferIndex := of_nat ?n, cmdComplete := True\<rparr>"
  have pb: "processByte (CHR 0x0A) ?h1 = ?h2"
    using assms(4,5) n upd by (simp add: processByte_def)
  have "NUL \<notin> set line" using assms(6) by blast
  then have cs: "cstr (cmdBuffer ?h2) = line"
    by (simp add: cstr_terminated)
  have c2: "cmdComplete ?h2" by simp
  have "receive ov (line @ [CHR 0x0A]) h = receive ov [CHR 0x0A] ?h1"
    by (simp only: receive_append plain sum.case)
  also have "\<dots> = (case processCommands ov ?h2 of Inl f \<Rightarrow> Inl f | Inr h1 \<Rightarrow> Inr h1)"
    by (simp add: pb cong: sum.case_cong)
  also have "\<dots> = processCommands ov ?h2"
    by (cases "processCommands ov ?h2") simp_all
  also have "\<dots> = (case parseCommand ov line ?h2 of
              Inl f \<Rightarrow> Inl f
            | Inr h1 \<Rightarrow> Inr (h1\<lparr>cmdBufferIndex := 0, cmdComplete := False,
                               cmdBuffer := replicate UART_CMD_BUFFER_SIZE NUL\<rparr>))"
    unfolding processCommands_def cs using c2 by simp
  finally show ?thesis .
qed


lemma fresh_handler_fields:
  "cmdBuffer (fresh_handler d) = replicate UART_CMD_BUFFER_SIZE NUL"
  "cmdBufferIndex (fresh_handler d) = 0"
  "cmdComplete (fresh_handler d) = False"
  by (simp_all add: fresh_handler_def UartCommandHandler_init_def sendResponse_def)

text \<open>
  C3, evaluated where it fails. A single line of 2053 bytes: 2047 letters, one more byte at
  which the overflow is reported and the index reset, then \<^verbatim>\<open>ALL|1\<close> and the newline. The
  rest of the line after the overflow is dispatched as the command \<^verbatim>\<open>ALL|1\<close>: all ten rows
  are driven high, all fourteen columns low, and the reply is \<^verbatim>\<open>OK\<close>.
\<close>

theorem overlong_line_tail_dispatched:
  "\<exists>h'. receive id (replicate 2047 (CHR ''A'') @ ''XALL|1\<newline>'') (fresh_handler zeroed) = Inr h'
     \<and> hal (arrayDriver h')
         = hal (arrayDriver (fresh_handler zeroed))
           @ Transmit ''ERROR: Buffer overflow\<newline>''
             # map (\<lambda>r. RowLine r True) [0..<NUM_ROWS] @ map (\<lambda>c. ColLine c False) [0..<NUM_COLS]
           @ [Transmit ''All electrodes set to HIGH\<newline>'', Transmit ''OK\<newline>'']
     \<and> electrodeState (arrayDriver h') = replicate NUM_ROWS (replicate NUM_COLS True)"
proof -
  let ?h0 = "fresh_handler zeroed"
  let ?h1 = "?h0\<lparr>cmdBuffer := replicate 2047 (CHR ''A'') @ [NUL], cmdBufferIndex := 2047\<rparr>"
  have s1: "receive id (replicate 2047 (CHR ''A'')) ?h0 = Inr ?h1"
    using receive_plain[of ?h0 "replicate 2047 (CHR ''A'')" id]
    by (simp add: fresh_handler_fields)
  let ?h2 = "(sendError ''Buffer overflow'' ?h1)\<lparr>cmdBufferIndex := 0\<rparr>"
  have s2: "receive id ''X'' ?h1 = Inr ?h2"
    by (simp add: processByte_def processCommands_def sendError_def sendResponse_def Let_def
        fresh_handler_fields)
  have h2: "\<not> cmdComplete ?h2" "cmdBufferIndex ?h2 = 0" "length (cmdBuffer ?h2) = UART_CMD_BUFFER_SIZE"
    by (simp_all add: sendError_def sendResponse_def Let_def fresh_handler_fields)
  let ?h3 = "?h2\<lparr>cmdBuffer := ''ALL|1'' @ NUL # drop (Suc (length ''ALL|1'')) (cmdBuffer ?h2),
                cmdBufferIndex := of_nat (length ''ALL|1''), cmdComplete := True\<rparr>"
  have pc: "parseCommand id ''ALL|1'' ?h3 = Inr (parseAllElectrodesCommand ''ALL|1'' ?h3)"
    by (simp add: parseCommand_def starts_with_def)
  have s3: "receive id (''ALL|1'' @ [CHR 0x0A]) ?h2
        = Inr ((parseAllElectrodesCommand ''ALL|1'' ?h3)\<lparr>cmdBufferIndex := 0, cmdComplete := False,
                               cmdBuffer := replicate UART_CMD_BUFFER_SIZE NUL\<rparr>)"
    using receive_line[OF h2, of "''ALL|1''" id] pc by simp
  let ?h' = "(parseAllElectrodesCommand ''ALL|1'' ?h3)\<lparr>cmdBufferIndex := 0, cmdComplete := False,
                               cmdBuffer := replicate UART_CMD_BUFFER_SIZE NUL\<rparr>"
  let ?A = "replicate 2047 (CHR ''A'')"
  let ?L = "''ALL|1'' @ [CHR 0x0A]"
  have e1: "receive id (?A @ (''X'' @ ?L)) ?h0 = receive id (''X'' @ ?L) ?h1"
    by (simp only: receive_append[of id ?A "''X'' @ ?L" ?h0] s1 sum.case)
  have e2: "receive id (''X'' @ ?L) ?h1 = receive id ?L ?h2"
    by (simp only: receive_append[of id "''X''" ?L ?h1] s2 sum.case)
  have "?A @ ''XALL|1\<newline>'' = ?A @ (''X'' @ ?L)"
    by simp
  then have run: "receive id (?A @ ''XALL|1\<newline>'') ?h0 = Inr ?h'"
    using e1 e2 s3 by (simp only:)
  have one: "atoi ''1'' = 1"
    by (simp add: atoi_def isspace_def isdigit_def digit_val_def INT_MIN_def INT_MAX_def)
  have all: "parseAllElectrodesCommand ''ALL|1'' ?h3
        = sendOK (sendResponse ''All electrodes set to HIGH\<newline>'' (on_driver setAllElectrodesHigh ?h3))"
    by (simp add: parseAllElectrodesCommand_def one)
  have ok: "matrix_ok (electrodeState (arrayDriver ?h3))"
    by (simp add: sendError_def sendResponse_def Let_def emit_def fresh_handler_def
        UartCommandHandler_init_def matrix_ok_zeroed)
  have log: "hal (arrayDriver ?h')
         = hal (arrayDriver ?h0)
           @ Transmit ''ERROR: Buffer overflow\<newline>''
             # map (\<lambda>r. RowLine r True) [0..<NUM_ROWS] @ map (\<lambda>c. ColLine c False) [0..<NUM_COLS]
           @ [Transmit ''All electrodes set to HIGH\<newline>'', Transmit ''OK\<newline>'']"
    unfolding all
    by (simp add: sendOK_def sendResponse_def on_driver_def setAllElectrodesHigh_def emit_def
        sendError_def Let_def snprintf_def del: upt_Suc map_append)
  have st: "electrodeState (arrayDriver ?h') = replicate NUM_ROWS (replicate NUM_COLS True)"
    unfolding all using fill_state_eq[OF ok, of True]
    by (simp add: sendOK_def sendResponse_def on_driver_def setAllElectrodesHigh_def emit_def Let_def)
  show ?thesis using run log st by blast
qed

section \<open>Properties of the START command\<close>

lemma isdigit_digit_char: "n < 10 \<Longrightarrow> isdigit (digit_char n)"
  by (simp add: isdigit_def digit_char_def)

lemma digit_val_digit_char: "n < 10 \<Longrightarrow> digit_val (digit_char n) = int n"
  by (simp add: digit_val_def digit_char_def)

lemma show_nat_digits: "c \<in> set (show_nat n) \<Longrightarrow> isdigit c"
proof (induction n arbitrary: c rule: show_nat.induct)
  case (1 n)
  show ?case
  proof (cases "n < 10")
    case True
    with "1.prems" show ?thesis by (simp add: show_nat.simps[of n] isdigit_digit_char)
  next
    case False
    with "1.prems" "1.IH" show ?thesis
      by (auto simp: show_nat.simps[of n] isdigit_digit_char)
  qed
qed

lemma show_nat_nonempty: "show_nat n \<noteq> []"
  by (subst show_nat.simps) simp

lemma read_digits_append:
  "\<forall>c\<in>set ds. isdigit c \<Longrightarrow>
   read_digits acc (ds @ rest) = read_digits (fold (\<lambda>c a. a * 10 + digit_val c) ds acc) rest"
  by (induction ds arbitrary: acc) simp_all

lemma fold_show_nat: "fold (\<lambda>c a. a * 10 + digit_val c) (show_nat n) 0 = int n"
proof (induction n rule: show_nat.induct)
  case (1 n)
  show ?case
  proof (cases "n < 10")
    case True
    then show ?thesis by (simp add: show_nat.simps[of n] digit_val_digit_char)
  next
    case False
    then have "fold (\<lambda>c a. a * 10 + digit_val c) (show_nat n) 0
               = int (n div 10) * 10 + int (n mod 10)"
      using "1.IH" by (simp add: show_nat.simps[of n] digit_val_digit_char)
    also have "\<dots> = int n" by presburger
    finally show ?thesis .
  qed
qed

lemma read_digits_stop: "rest = [] \<or> \<not> isdigit (hd rest) \<Longrightarrow> read_digits acc rest = acc"
  by (cases rest) auto

lemma read_digits_show_nat: "rest = [] \<or> \<not> isdigit (hd rest) \<Longrightarrow> read_digits 0 (show_nat n @ rest) = int n"
  by (simp add: read_digits_append show_nat_digits fold_show_nat read_digits_stop)

lemma isdigit_not_space: "isdigit c \<Longrightarrow> \<not> isspace c \<and> c \<noteq> CHR ''-'' \<and> c \<noteq> CHR ''+''"
  by (auto simp: isdigit_def isspace_def)

lemma hd_show_nat: "\<exists>c r. show_nat n = c # r \<and> isdigit c"
  using show_nat_nonempty[of n] show_nat_digits[of _ n]
  by (cases "show_nat n") auto

lemma atoi_show_int:
  assumes "rest = [] \<or> \<not> isdigit (hd rest)"
  shows "atoi (show_int v @ rest) = max INT_MIN (min INT_MAX v)"
proof (cases "v < 0")
  case True
  have "\<not> isspace (CHR ''-'')" by (simp add: isspace_def)
  then have "atoi (show_int v @ rest) = max INT_MIN (min INT_MAX (- read_digits 0 (show_nat (nat (- v)) @ rest)))"
    using True by (simp add: atoi_def show_int_def)
  then show ?thesis using True assms by (simp add: read_digits_show_nat)
next
  case False
  obtain c r where cr: "show_nat (nat v) = c # r" "isdigit c" using hd_show_nat by blast
  then have "atoi (show_int v @ rest) = max INT_MIN (min INT_MAX (read_digits 0 (show_nat (nat v) @ rest)))"
    using False isdigit_not_space[OF cr(2)] by (simp add: atoi_def show_int_def)
  then show ?thesis using False assms by (simp add: read_digits_show_nat)
qed

lemma show_int_chars: "c \<in> set (show_int v) \<Longrightarrow> isdigit c \<or> c = CHR ''-''"
  by (auto simp: show_int_def dest: show_nat_digits split: if_splits)

lemma strchr_skip: "c \<notin> set xs \<Longrightarrow> strchr (xs @ c # rest) c = Some (c # rest)"
  by (induction xs) auto

lemma strchr_show_int:
  "\<not> isdigit c \<Longrightarrow> c \<noteq> CHR ''-'' \<Longrightarrow> strchr (show_int v @ c # rest) c = Some (c # rest)"
  using show_int_chars[of c v] by (intro strchr_skip) auto

lemma hd_show_int: "\<exists>c r. show_int v = c # r \<and> (isdigit c \<or> c = CHR ''-'')"
  using hd_show_nat[of "nat v"] by (auto simp: show_int_def)

lemma sep_not_digit:
  "\<not> isdigit (CHR ''|'')" "\<not> isdigit (CHR '','')" "\<not> isdigit (CHR ''E'')"
  by (simp_all add: isdigit_def)

lemma starts_with_ERROR: "starts_with (snprintf UART_RESPONSE_BUFFER_SIZE (''ERROR: '' @ s)) ''ERROR: ''"
  by (simp add: starts_with_def snprintf_def)

lemma rejected_sendError: "rejected h (Inr (sendError msg h))"
  using starts_with_ERROR[of "msg @ ''\<newline>''"]
  by (simp add: rejected_def sendError_def sendResponse_def Let_def)

lemma rejected_sendError_responseBuffer:
  "rejected h (Inr (sendError_responseBuffer ov (h\<lparr>responseBuffer := x\<rparr>)))"
  using starts_with_ERROR[of "ov x"]
  by (simp add: rejected_def sendError_responseBuffer_def sendResponse_def Let_def)

lemma atoi_no_number: "atoi [] = 0" "atoi ''END'' = 0"
  by (simp_all add: atoi_def isspace_def isdigit_def INT_MIN_def INT_MAX_def)

lemma clamp_id: "1 \<le> v \<Longrightarrow> v \<le> 140 \<Longrightarrow> max INT_MIN (min INT_MAX v) = v"
  by (simp add: INT_MIN_def INT_MAX_def)

lemma clamp_low: "(max INT_MIN (min INT_MAX v) < 1) = (v < 1)" "(max INT_MIN (min INT_MAX v) < 0) = (v < 0)"
  by (auto simp: INT_MIN_def INT_MAX_def)

lemma clamp_high: "(140 < max INT_MIN (min INT_MAX v)) = (140 < v)"
  "(1000 < max INT_MIN (min INT_MAX v)) = (1000 < v)" "(256 < max INT_MIN (min INT_MAX v)) = (256 < v)"
  by (auto simp: INT_MIN_def INT_MAX_def)

lemma clamp_nonneg: "0 \<le> v \<Longrightarrow> max INT_MIN (min INT_MAX v) = min INT_MAX v"
  by (simp add: INT_MIN_def INT_MAX_def)

lemma step_field_parse:
  "atoi (step_field st @ rest) = max INT_MIN (min INT_MAX (fst st))"
  "strchr (step_field st @ rest) (CHR '','') = Some (CHR '','' # show_int (snd st) @ CHR ''|'' # rest)"
  "atoi (show_int (snd st) @ CHR ''|'' # rest) = max INT_MIN (min INT_MAX (snd st))"
  "strchr (show_int (snd st) @ CHR ''|'' # rest) (CHR ''|'') = Some (CHR ''|'' # rest)"
  using atoi_show_int[of "CHR '','' # show_int (snd st) @ CHR ''|'' # rest" "fst st"]
    strchr_show_int[of "CHR '',''" "fst st" "show_int (snd st) @ CHR ''|'' # rest"]
    atoi_show_int[of "CHR ''|'' # rest" "snd st"]
    strchr_show_int[of "CHR ''|''" "snd st" rest]
  by (simp_all add: step_field_def sep_not_digit)

lemma steps_text_not_END:
  "sts \<noteq> [] \<Longrightarrow> \<not> starts_with (concat (map step_field sts) @ tail) ''END''"
proof (cases sts)
  case Nil then show "sts \<noteq> [] \<Longrightarrow> ?thesis" by simp
next
  case (Cons st more)
  obtain c r where "show_int (fst st) = c # r" "isdigit c \<or> c = CHR ''-''"
    using hd_show_int by blast
  then show ?thesis using Cons sep_not_digit(3)
    by (auto simp: starts_with_def step_field_def)
qed

lemma tail_END: "tail = [] \<or> tail = ''END'' \<Longrightarrow> starts_with tail ''END'' = (tail = ''END'')"
  by (auto simp: starts_with_def)

lemma parse_steps_rendered:
  assumes tail: "tail = [] \<or> tail = ''END''"
  shows "(accepts n i sts tail \<longrightarrow>
            parse_steps ov reps delay n i (concat (map step_field sts) @ tail) ids durs h
            = (case UartCommandHandler_executeSequence reps delay n
                      (ids @ map fst sts) (durs @ map (\<lambda>st. min INT_MAX (snd st)) sts) h of
                 Inl f \<Rightarrow> Inl f | Inr h1 \<Rightarrow> Inr (sendOK h1)))
       \<and> (\<not> accepts n i sts tail \<longrightarrow>
            rejected h (parse_steps ov reps delay n i (concat (map step_field sts) @ tail) ids durs h))"
proof (induction sts arbitrary: i ids durs)
  case Nil
  have "rejected h (parse_steps ov reps delay n i tail ids durs h)"
    using tail
    by (subst parse_steps.simps)
      (auto simp: Let_def atoi_no_number rejected_sendError rejected_sendError_responseBuffer)
  then show ?case by (simp add: accepts_def)
next
  case (Cons st more)
  let ?rest = "concat (map step_field more) @ tail"
  let ?ptr = "step_field st @ ?rest"
  define eid where "eid = max INT_MIN (min INT_MAX (fst st))"
  define edur where "edur = max INT_MIN (min INT_MAX (snd st))"
  let ?run = "parse_steps ov reps delay n i ?ptr ids durs h"
  have unfold: "?run =
     (if int i < n then
        (if eid < 1 \<or> eid > 140
         then Inr (sendError_responseBuffer ov
                (h\<lparr>responseBuffer := snprintf UART_RESPONSE_BUFFER_SIZE
                     (''Invalid electrode ID at step '' @ show_int (int i) @ '' (1-140)'')\<rparr>))
         else if edur < 0
         then Inr (sendError_responseBuffer ov
                (h\<lparr>responseBuffer := snprintf UART_RESPONSE_BUFFER_SIZE
                     (''Invalid duration at step '' @ show_int (int i))\<rparr>))
         else if starts_with ?rest ''END''
         then (if int i + 1 = n
               then (case UartCommandHandler_executeSequence reps delay n (ids @ [eid]) (durs @ [edur]) h of
                       Inl f \<Rightarrow> Inl f | Inr h1 \<Rightarrow> Inr (sendOK h1))
               else Inr (sendError ''Early END marker'' h))
         else parse_steps ov reps delay n (Suc i) ?rest (ids @ [eid]) (durs @ [edur]) h)
      else Inr (sendError ''Missing END marker'' h))"
    by (subst parse_steps.simps) (simp add: Let_def step_field_parse eid_def[symmetric] edur_def[symmetric])
  show ?case
  proof (cases "int i < n")
    case False
    then have "rejected h ?run" by (simp add: unfold rejected_sendError)
    moreover have "\<not> accepts n i (st # more) tail" using False by (simp add: accepts_def)
    ultimately show ?thesis by simp
  next
    case lt: True
    show ?thesis
    proof (cases "valid_step st")
      case False
      then have "eid < 1 \<or> eid > 140 \<or> edur < 0"
        by (auto simp: valid_step_def eid_def edur_def INT_MIN_def INT_MAX_def)
      then have "rejected h ?run"
        using lt by (auto simp: unfold rejected_sendError_responseBuffer)
      moreover have "\<not> accepts n i (st # more) tail" using False by (simp add: accepts_def)
      ultimately show ?thesis by simp
    next
      case v: True
      then have id: "eid = fst st" and dur: "edur = min INT_MAX (snd st)"
        and ok: "\<not> (fst st < 1 \<or> fst st > 140)" "\<not> min INT_MAX (snd st) < 0"
        by (auto simp: valid_step_def eid_def edur_def INT_MIN_def INT_MAX_def)
      have unfold2: "?run =
         (if starts_with ?rest ''END''
          then (if int i + 1 = n
                then (case UartCommandHandler_executeSequence reps delay n (ids @ [fst st])
                             (durs @ [min INT_MAX (snd st)]) h of
                        Inl f \<Rightarrow> Inl f | Inr h1 \<Rightarrow> Inr (sendOK h1))
                else Inr (sendError ''Early END marker'' h))
          else parse_steps ov reps delay n (Suc i) ?rest (ids @ [fst st])
                 (durs @ [min INT_MAX (snd st)]) h)"
        using lt ok by (simp add: unfold id dur)
      show ?thesis
      proof (cases "more = []")
        case True
        then have sw: "starts_with ?rest ''END'' = (tail = ''END'')"
          using tail by (simp add: tail_END)
        have m: "map fst more = []" "map (\<lambda>st. min INT_MAX (snd st)) more = []"
          using True by simp_all
        show ?thesis
        proof (cases "tail = ''END''")
          case END: True
          have acc: "accepts n i (st # more) tail = (int i + 1 = n)"
            using \<open>more = []\<close> END v by (simp add: accepts_def)
          have run: "?run = (if int i + 1 = n
                then (case UartCommandHandler_executeSequence reps delay n (ids @ [fst st])
                             (durs @ [min INT_MAX (snd st)]) h of
                        Inl f \<Rightarrow> Inl f | Inr h1 \<Rightarrow> Inr (sendOK h1))
                else Inr (sendError ''Early END marker'' h))"
            unfolding unfold2 sw using END by simp
          show ?thesis
            by (auto simp: run acc m rejected_sendError)
        next
          case False
          have run: "?run = parse_steps ov reps delay n (Suc i) ?rest (ids @ [fst st])
                 (durs @ [min INT_MAX (snd st)]) h"
            unfolding unfold2 sw using False by simp
          have "\<not> accepts n (Suc i) more tail" using False by (simp add: accepts_def)
          then have "rejected h ?run"
            using Cons.IH[of "Suc i" "ids @ [fst st]" "durs @ [min INT_MAX (snd st)]"]
            unfolding run by blast
          moreover have "\<not> accepts n i (st # more) tail" using False by (simp add: accepts_def)
          ultimately show ?thesis by simp
        qed
      next
        case False
        then have sw: "\<not> starts_with ?rest ''END''" by (rule steps_text_not_END)
        have run: "?run = parse_steps ov reps delay n (Suc i) ?rest (ids @ [fst st])
                            (durs @ [min INT_MAX (snd st)]) h"
          unfolding unfold2 using sw by simp
        have acc: "accepts n i (st # more) tail = accepts n (Suc i) more tail"
          using False v by (auto simp: accepts_def)
        show ?thesis
          using Cons.IH[of "Suc i" "ids @ [fst st]" "durs @ [min INT_MAX (snd st)]"]
          by (simp add: run acc)
      qed
    qed
  qed
qed

lemma start_line_unfold:
  "start_line reps delay n sts tail
   = ''START|'' @ (show_int reps @ CHR ''|'' # show_int delay @ CHR ''|'' # show_int n
       @ CHR ''|'' # concat (map step_field sts) @ tail)"
  by (simp add: start_line_def)

lemma field_parse:
  "atoi (show_int v @ CHR ''|'' # rest) = max INT_MIN (min INT_MAX v)"
  "strchr (show_int v @ CHR ''|'' # rest) (CHR ''|'') = Some (CHR ''|'' # rest)"
  using atoi_show_int[of "CHR ''|'' # rest" v] strchr_show_int[of "CHR ''|''" v rest]
  by (simp_all add: sep_not_digit)

lemma parseElectrodeCommand_rendered:
  assumes tail: "tail = [] \<or> tail = ''END''"
  shows "(valid_header reps delay n \<and> accepts n 0 sts tail \<longrightarrow>
            parseElectrodeCommand ov (start_line reps delay n sts tail) h
            = (case UartCommandHandler_executeSequence reps (min INT_MAX delay) n
                      (map fst sts) (map (\<lambda>st. min INT_MAX (snd st)) sts) h of
                 Inl f \<Rightarrow> Inl f | Inr h1 \<Rightarrow> Inr (sendOK h1)))
       \<and> (\<not> (valid_header reps delay n \<and> accepts n 0 sts tail) \<longrightarrow>
            rejected h (parseElectrodeCommand ov (start_line reps delay n sts tail) h))"
proof -
  define creps where "creps = max INT_MIN (min INT_MAX reps)"
  define cdelay where "cdelay = max INT_MIN (min INT_MAX delay)"
  define cn where "cn = max INT_MIN (min INT_MAX n)"
  let ?body = "concat (map step_field sts) @ tail"
  let ?run = "parseElectrodeCommand ov (start_line reps delay n sts tail) h"
  have unfold: "?run =
     (if creps < 1 \<or> creps > 1000 then Inr (sendError ''Invalid cycle repetitions (1-1000)'' h)
      else if cdelay < 0 then Inr (sendError ''Invalid cycle delay'' h)
      else if cn < 1 \<or> cn > 256
      then Inr (sendError_responseBuffer ov
                  (h\<lparr>responseBuffer := snprintf UART_RESPONSE_BUFFER_SIZE
                       (''Invalid steps count (1-'' @ show_int (int MAX_STEPS) @ '')'')\<rparr>))
      else parse_steps ov creps cdelay cn 0 ?body [] [] h)"
    unfolding start_line_unfold parseElectrodeCommand_def
    by (simp add: starts_with_def Let_def field_parse creps_def[symmetric] cdelay_def[symmetric]
        cn_def[symmetric])
  show ?thesis
  proof (cases "valid_header reps delay n")
    case False
    then have "creps < 1 \<or> creps > 1000 \<or> cdelay < 0 \<or> cn < 1 \<or> cn > 256"
      by (auto simp: valid_header_def creps_def cdelay_def cn_def INT_MIN_def INT_MAX_def)
    then have "rejected h ?run"
      unfolding unfold by (auto simp: rejected_sendError rejected_sendError_responseBuffer)
    with False show ?thesis by simp
  next
    case True
    then have c: "creps = reps" "cdelay = min INT_MAX delay" "cn = n"
      and ok: "\<not> (creps < 1 \<or> creps > 1000)" "\<not> cdelay < 0" "\<not> (cn < 1 \<or> cn > 256)"
      by (auto simp: valid_header_def creps_def cdelay_def cn_def INT_MIN_def INT_MAX_def)
    have run: "?run = parse_steps ov reps (min INT_MAX delay) n 0 ?body [] [] h"
      using ok unfolding unfold by (simp add: c)
    show ?thesis
      using parse_steps_rendered[OF tail, of n 0 sts ov reps "min INT_MAX delay" "[]" "[]" h] True
      by (simp add: run)
  qed
qed

lemma parse_steps_outcome:
  assumes "length ids = i" "length durs = i"
    "list_all (\<lambda>x. 1 \<le> x \<and> x \<le> 140) ids" "list_all (\<lambda>x. 0 \<le> x) durs"
  shows "rejected h (parse_steps ov reps delay n i ptr ids durs h)
       \<or> (\<exists>ids' durs'. validated n ids' durs'
            \<and> parse_steps ov reps delay n i ptr ids durs h
              = (case UartCommandHandler_executeSequence reps delay n ids' durs' h of
                   Inl f \<Rightarrow> Inl f | Inr h1 \<Rightarrow> Inr (sendOK h1)))"
  using assms
proof (induction ov reps delay n i ptr ids durs h rule: parse_steps.induct)
  case (1 ov reps delay n i ptr ids durs h)
  let ?run = "parse_steps ov reps delay n i ptr ids durs h"
  define eid where "eid = atoi ptr"
  show ?case
  proof (cases "int i < n \<and> \<not> (eid < 1 \<or> 140 < eid)")
    case False
    then have "rejected h ?run"
      by (subst parse_steps.simps)
        (auto simp: Let_def eid_def rejected_sendError rejected_sendError_responseBuffer)
    then show ?thesis by simp
  next
    case head: True
    show ?thesis
    proof (cases "strchr ptr (CHR '','')")
      case None
      then have "rejected h ?run"
        using head by (subst parse_steps.simps) (simp add: Let_def eid_def rejected_sendError)
      then show ?thesis by simp
    next
      case (Some comma)
      define edur where "edur = atoi (tl comma)"
      show ?thesis
      proof (cases "edur < 0")
        case True
        then have "rejected h ?run"
          using head Some
          by (subst parse_steps.simps)
            (simp add: Let_def eid_def edur_def rejected_sendError_responseBuffer)
        then show ?thesis by simp
      next
        case dur: False
        show ?thesis
        proof (cases "strchr (tl comma) (CHR ''|'')")
          case None
          then have "rejected h ?run"
            using head Some dur
            by (subst parse_steps.simps) (simp add: Let_def eid_def edur_def rejected_sendError)
          then show ?thesis by simp
        next
          case pipe: (Some pipe)
          have unfold: "?run =
             (if starts_with (tl pipe) ''END''
              then (if int i + 1 = n
                    then (case UartCommandHandler_executeSequence reps delay n
                                 (ids @ [eid]) (durs @ [edur]) h of
                            Inl f \<Rightarrow> Inl f | Inr h1 \<Rightarrow> Inr (sendOK h1))
                    else Inr (sendError ''Early END marker'' h))
              else parse_steps ov reps delay n (Suc i) (tl pipe) (ids @ [eid]) (durs @ [edur]) h)"
            using head Some dur pipe
            by (subst parse_steps.simps) (simp add: Let_def eid_def edur_def)
          have inv: "length (ids @ [eid]) = Suc i" "length (durs @ [edur]) = Suc i"
            "list_all (\<lambda>x. 1 \<le> x \<and> x \<le> 140) (ids @ [eid])" "list_all (\<lambda>x. 0 \<le> x) (durs @ [edur])"
            using "1.prems" head dur by auto
          show ?thesis
          proof (cases "starts_with (tl pipe) ''END''")
            case True
            show ?thesis
            proof (cases "int i + 1 = n")
              case True
              then have "validated n (ids @ [eid]) (durs @ [edur])"
                using inv by (simp add: validated_def)
              moreover have "?run = (case UartCommandHandler_executeSequence reps delay n
                                 (ids @ [eid]) (durs @ [edur]) h of
                            Inl f \<Rightarrow> Inl f | Inr h1 \<Rightarrow> Inr (sendOK h1))"
                using True \<open>starts_with (tl pipe) ''END''\<close> by (simp add: unfold)
              ultimately show ?thesis by blast
            next
              case False
              then have "rejected h ?run"
                using \<open>starts_with (tl pipe) ''END''\<close> by (simp add: unfold rejected_sendError)
              then show ?thesis by simp
            qed
          next
            case False
            have run: "?run = parse_steps ov reps delay n (Suc i) (tl pipe) (ids @ [eid]) (durs @ [edur]) h"
              using False by (simp add: unfold)
            have "int i < n" "\<not> (eid < 1 \<or> 140 < eid)" using head by simp_all
            from "1.IH"[OF this(1) eid_def refl this(2) Some edur_def refl dur pipe False inv]
            show ?thesis unfolding run .
          qed
        qed
      qed
    qed
  qed
qed

lemma parseElectrodeCommand_outcome:
  "rejected h (parseElectrodeCommand ov cmd h)
   \<or> (\<exists>reps delay n ids durs.
         1 \<le> reps \<and> reps \<le> 1000 \<and> 0 \<le> delay \<and> 1 \<le> n \<and> n \<le> 256 \<and> validated n ids durs
         \<and> parseElectrodeCommand ov cmd h
           = (case UartCommandHandler_executeSequence reps delay n ids durs h of
                Inl f \<Rightarrow> Inl f | Inr h1 \<Rightarrow> Inr (sendOK h1)))"
proof -
  let ?run = "parseElectrodeCommand ov cmd h"
  define reps where "reps = atoi (drop 6 cmd)"
  show ?thesis
  proof (cases "starts_with cmd ''START|'' \<and> \<not> (reps < 1 \<or> reps > 1000)")
    case False
    then have "rejected h ?run"
      by (auto simp: parseElectrodeCommand_def Let_def reps_def rejected_sendError)
    then show ?thesis by simp
  next
    case head: True
    show ?thesis
    proof (cases "strchr (drop 6 cmd) (CHR ''|'')")
      case None
      then have "rejected h ?run"
        using head by (simp add: parseElectrodeCommand_def Let_def reps_def rejected_sendError)
      then show ?thesis by simp
    next
      case p1: (Some pipe1)
      define delay where "delay = atoi (tl pipe1)"
      show ?thesis
      proof (cases "delay < 0")
        case True
        then have "rejected h ?run"
          using head p1
          by (simp add: parseElectrodeCommand_def Let_def reps_def delay_def rejected_sendError)
        then show ?thesis by simp
      next
        case d: False
        show ?thesis
        proof (cases "strchr (tl pipe1) (CHR ''|'')")
          case None
          then have "rejected h ?run"
            using head p1 d
            by (simp add: parseElectrodeCommand_def Let_def reps_def delay_def rejected_sendError)
          then show ?thesis by simp
        next
          case p2: (Some pipe2)
          define n where "n = atoi (tl pipe2)"
          show ?thesis
          proof (cases "n < 1 \<or> n > 256")
            case True
            then have "rejected h ?run"
              using head p1 d p2
              by (auto simp: parseElectrodeCommand_def Let_def reps_def delay_def n_def
                  rejected_sendError_responseBuffer)
            then show ?thesis by simp
          next
            case nok: False
            show ?thesis
            proof (cases "strchr (tl pipe2) (CHR ''|'')")
              case None
              then have "rejected h ?run"
                using head p1 d p2 nok
                by (simp add: parseElectrodeCommand_def Let_def reps_def delay_def n_def
                    rejected_sendError)
              then show ?thesis by simp
            next
              case p3: (Some pipe3)
              have run: "?run = parse_steps ov reps delay n 0 (tl pipe3) [] [] h"
                using head p1 d p2 nok p3
                by (simp add: parseElectrodeCommand_def Let_def reps_def delay_def n_def)
              have hdr: "1 \<le> reps \<and> reps \<le> 1000 \<and> 0 \<le> delay \<and> 1 \<le> n \<and> n \<le> 256"
                using head d nok by auto
              from parse_steps_outcome[of "[]" 0 "[]" h ov reps delay n "tl pipe3"]
              consider (rej) "rejected h (parse_steps ov reps delay n 0 (tl pipe3) [] [] h)"
                | (acc) ids durs where "validated n ids durs"
                    "parse_steps ov reps delay n 0 (tl pipe3) [] [] h
                     = (case UartCommandHandler_executeSequence reps delay n ids durs h of
                          Inl f \<Rightarrow> Inl f | Inr h1 \<Rightarrow> Inr (sendOK h1))"
                by auto
              then show ?thesis
              proof cases
                case rej
                then show ?thesis by (simp add: run)
              next
                case acc
                then show ?thesis unfolding run using hdr by blast
              qed
            qed
          qed
        qed
      qed
    qed
  qed
qed

lemma build_steps_valid:
  assumes "\<forall>j\<in>set js. j < length ids \<and> j < length durs \<and> j < length (sequenceSteps h)
             \<and> 1 \<le> ids ! j \<and> ids ! j \<le> 140"
  shows "build_steps ids durs js h
         = Inr (True, h\<lparr>sequenceSteps :=
                  fold (\<lambda>j s. s[j := built_step (electrodeMap (arrayDriver h)) (ids ! j, durs ! j)])
                    js (sequenceSteps h)\<rparr>)"
  using assms
proof (induction js arbitrary: h)
  case Nil
  then show ?case by simp
next
  case (Cons j js)
  let ?h1 = "h\<lparr>sequenceSteps := (sequenceSteps h)[j :=
               built_step (electrodeMap (arrayDriver h)) (ids ! j, durs ! j)]\<rparr>"
  have j: "j < length ids" "j < length durs" "j < length (sequenceSteps h)"
    "1 \<le> ids ! j" "ids ! j \<le> 140"
    using Cons.prems by simp_all
  have "build_steps ids durs (j # js) h = build_steps ids durs js ?h1"
    using j by (simp add: getRowColFromElectrode_in_range built_step_def)
  moreover have "\<forall>k\<in>set js. k < length ids \<and> k < length durs \<and> k < length (sequenceSteps ?h1)
             \<and> 1 \<le> ids ! k \<and> ids ! k \<le> 140"
    using Cons.prems by simp
  ultimately show ?case using Cons.IH[of ?h1] by simp
qed

lemma hal_run_step: "hal (run_step s d) = hal d @ run_events s"
  by (cases "step_state s")
    (simp_all add: run_step_def run_events_def HAL_Delay_def setElectrode_def setRowColAtomic_def
      emit_def Let_def)

lemma steps_loop_hal:
  assumes "\<forall>j\<in>set js. j < length arr"
  shows "\<exists>d'. steps_loop arr js d = Inr d'
           \<and> hal d' = hal d @ concat (map (\<lambda>j. run_events (arr ! j)) js)"
  using assms
proof (induction js arbitrary: d)
  case Nil
  then show ?case by simp
next
  case (Cons j js)
  then obtain d' where "steps_loop arr js (run_step (arr ! j) d) = Inr d'"
    "hal d' = hal (run_step (arr ! j) d) @ concat (map (\<lambda>j. run_events (arr ! j)) js)"
    by (meson list.set_intros(2))
  then show ?case using Cons.prems by (simp add: hal_run_step)
qed

lemma cycles_loop_hal:
  assumes "unat (numSteps sq) \<le> length arr"
  shows "\<exists>d'. cycles_loop sq arr cs d = Inr d'
           \<and> hal d' = hal d @ concat (map (\<lambda>cycle.
                 concat (map (\<lambda>j. run_events (arr ! j)) [0..<unat (numSteps sq)])
                 @ (if (of_nat cycle :: uint32_t) < cycleCount sq - 1
                    then [Delay (cycleDelay_ms sq)] else [])) cs)"
proof (induction cs arbitrary: d)
  case Nil
  then show ?case by simp
next
  case (Cons cycle cs)
  have "\<forall>j\<in>set [0..<unat (numSteps sq)]. j < length arr" using assms by simp
  from steps_loop_hal[OF this, of d] obtain d1 where
    d1: "steps_loop arr [0..<unat (numSteps sq)] d = Inr d1"
      "hal d1 = hal d @ concat (map (\<lambda>j. run_events (arr ! j)) [0..<unat (numSteps sq)])"
    by blast
  let ?d2 = "if (of_nat cycle :: uint32_t) < cycleCount sq - 1
             then HAL_Delay (cycleDelay_ms sq) d1 else d1"
  have d2: "hal ?d2 = hal d1 @ (if (of_nat cycle :: uint32_t) < cycleCount sq - 1
                    then [Delay (cycleDelay_ms sq)] else [])"
    by (simp add: HAL_Delay_def emit_def)
  from Cons.IH[of ?d2] obtain d' where
    d': "cycles_loop sq arr cs ?d2 = Inr d'"
      "hal d' = hal ?d2 @ concat (map (\<lambda>cycle.
                 concat (map (\<lambda>j. run_events (arr ! j)) [0..<unat (numSteps sq)])
                 @ (if (of_nat cycle :: uint32_t) < cycleCount sq - 1
                    then [Delay (cycleDelay_ms sq)] else [])) cs)"
    by blast
  have "cycles_loop sq arr (cycle # cs) d = Inr d'"
    using d1(1) d'(1) by simp
  moreover have "hal d' = hal d @ concat (map (\<lambda>cycle.
                 concat (map (\<lambda>j. run_events (arr ! j)) [0..<unat (numSteps sq)])
                 @ (if (of_nat cycle :: uint32_t) < cycleCount sq - 1
                    then [Delay (cycleDelay_ms sq)] else [])) (cycle # cs))"
    unfolding d'(2) d2 d1(2) by simp
  ultimately show ?case by blast
qed

lemma unat_of_int_16:
  assumes "0 \<le> k" "k < 65536"
  shows "unat (of_int k :: uint16_t) = nat k"
proof -
  have "uint (word_of_int k :: uint16_t) = k mod 2 ^ 16" by (simp add: uint_word_of_int)
  also have "\<dots> = k" using assms by simp
  finally show ?thesis by (simp add: unat_eq_nat_uint del: uint_word_of_int_eq)
qed

lemma unat_of_int_32:
  assumes "0 \<le> k" "k < 4294967296"
  shows "unat (of_int k :: uint32_t) = nat k"
proof -
  have "uint (word_of_int k :: uint32_t) = k mod 2 ^ 32" by (simp add: uint_word_of_int)
  also have "\<dots> = k" using assms by simp
  finally show ?thesis by (simp add: unat_eq_nat_uint del: uint_word_of_int_eq)
qed

lemma run_events_built_step: "run_events (built_step emap st) = spec_step_events emap st"
  by (simp add: run_events_def built_step_def spec_step_events_def Let_def)

lemma list_all_energizes_spec_step_events: "list_all energizes (spec_step_events emap st)"
  by (simp add: spec_step_events_def Let_def)

lemma list_all_concat_map: "(\<And>x. list_all P (f x)) \<Longrightarrow> list_all P (concat (map f xs))"
  by (induction xs) simp_all

lemma list_all_energizes_spec_blocking_events: "list_all energizes (spec_blocking_events emap cycles delay sts)"
  unfolding spec_blocking_events_def
  by (rule list_all_concat_map) (simp add: list_all_concat_map list_all_energizes_spec_step_events)

lemma executeSequence_validated:
  assumes hdr: "1 \<le> reps" "reps \<le> 1000" "0 \<le> delay" "1 \<le> n" "n \<le> 256"
    and v: "validated n ids durs" and len: "length (sequenceSteps h) = MAX_STEPS"
  shows "\<exists>h1. UartCommandHandler_executeSequence reps delay n ids durs h = Inr h1
           \<and> hal (arrayDriver h1)
               = hal (arrayDriver h) @ Transmit ''Executing sequence...\<newline>''
                   # spec_blocking_events (electrodeMap (arrayDriver h)) (nat reps) delay (zip ids durs)
                   @ [Transmit ''Sequence complete\<newline>'']
           \<and> steps (handlerSequence h1) = Some (sequenceSteps h1)
           \<and> unat (numSteps (handlerSequence h1)) = nat n
           \<and> (\<forall>j<nat n. step_state (sequenceSteps h1 ! j))"
proof -
  let ?N = "nat n" and ?R = "nat reps"
  let ?emap = "electrodeMap (arrayDriver h)"
  let ?f = "\<lambda>j. built_step ?emap (ids ! j, durs ! j)"
  let ?arr = "map ?f [0..<?N] @ drop ?N (sequenceSteps h)"
  have lens: "length ids = ?N" "length durs = ?N"
    and idv: "\<forall>j<?N. 1 \<le> ids ! j \<and> ids ! j \<le> 140"
    using v by (auto simp: validated_def list_all_length)
  have N: "?N \<le> MAX_STEPS" using hdr by simp
  have fold: "fold (\<lambda>j s. s[j := ?f j]) [0..<?N] (sequenceSteps h) = ?arr"
    using fold_store_row[of ?N "sequenceSteps h" ?f] N len by simp
  let ?h1 = "h\<lparr>sequenceSteps := ?arr\<rparr>"
  have build: "build_steps ids durs [0..<?N] h = Inr (True, ?h1)"
    using build_steps_valid[of "[0..<?N]" ids durs h] lens idv N len by (simp add: fold)
  let ?sq = "\<lparr>steps = Some ?arr, numSteps = of_int n, cycleCount = of_int reps,
              cycleDelay_ms = of_int delay\<rparr>"
  let ?d3 = "emit [Transmit ''Executing sequence...\<newline>''] (arrayDriver h)"
  have un: "unat (numSteps ?sq) = ?N" using hdr by (simp add: unat_of_int_16)
  have ur: "unat (cycleCount ?sq) = ?R" using hdr by (simp add: unat_of_int_32)
  have "unat (numSteps ?sq) \<le> length ?arr" using un N len by simp
  from cycles_loop_hal[OF this, of "[0..<?R]" ?d3] obtain d' where
    d': "cycles_loop ?sq ?arr [0..<?R] ?d3 = Inr d'"
      "hal d' = hal ?d3 @ concat (map (\<lambda>cycle.
                 concat (map (\<lambda>j. run_events (?arr ! j)) [0..<unat (numSteps ?sq)])
                 @ (if (of_nat cycle :: uint32_t) < cycleCount ?sq - 1
                    then [Delay (cycleDelay_ms ?sq)] else [])) [0..<?R])"
    by blast
  have cyc: "concat (map (\<lambda>j. run_events (?arr ! j)) [0..<unat (numSteps ?sq)])
             = concat (map (spec_step_events ?emap) (zip ids durs))"
  proof -
    have "map (\<lambda>j. run_events (?arr ! j)) [0..<?N] = map (\<lambda>j. spec_step_events ?emap (zip ids durs ! j)) [0..<?N]"
      using lens by (intro map_cong) (simp_all add: nth_append run_events_built_step)
    also have "\<dots> = map (spec_step_events ?emap) (map (\<lambda>j. zip ids durs ! j) [0..<length (zip ids durs)])"
      using lens by simp
    also have "\<dots> = map (spec_step_events ?emap) (zip ids durs)"
      by (simp only: map_nth)
    finally show ?thesis by (simp only: un)
  qed
  have between: "((of_nat cycle :: uint32_t) < of_int reps - 1) = (Suc cycle < ?R)"
    if "cycle \<in> set [0..<?R]" for cycle
  proof -
    have "cycle < unat (of_int reps :: uint32_t)" using that ur by simp
    from of_nat_less_pred_iff[OF this] show ?thesis using ur by auto
  qed
  have ev: "concat (map (\<lambda>cycle.
                 concat (map (\<lambda>j. run_events (?arr ! j)) [0..<unat (numSteps ?sq)])
                 @ (if (of_nat cycle :: uint32_t) < cycleCount ?sq - 1
                    then [Delay (cycleDelay_ms ?sq)] else [])) [0..<?R])
            = spec_blocking_events ?emap ?R delay (zip ids durs)"
    unfolding spec_blocking_events_def cyc
    by (rule arg_cong[where f = concat], rule map_cong) (simp_all add: between del: upt_Suc)
  let ?h' = "sendResponse ''Sequence complete\<newline>''
               ((sendResponse ''Executing sequence...\<newline>'' (?h1\<lparr>handlerSequence := ?sq\<rparr>))
                  \<lparr>arrayDriver := d'\<rparr>)"
  have run: "UartCommandHandler_executeSequence reps delay n ids durs h = Inr ?h'"
    using d'(1) ur
    by (simp add: UartCommandHandler_executeSequence_def build Let_def executeSequence_def
        sendResponse_def)
  have log: "hal (arrayDriver ?h')
               = hal (arrayDriver h) @ Transmit ''Executing sequence...\<newline>''
                   # spec_blocking_events ?emap ?R delay (zip ids durs)
                   @ [Transmit ''Sequence complete\<newline>'']"
    using d'(2) unfolding ev by (simp add: sendResponse_def emit_def)
  have sq: "steps (handlerSequence ?h') = Some (sequenceSteps ?h')"
    "unat (numSteps (handlerSequence ?h')) = ?N"
    using un by (simp_all add: sendResponse_def)
  have st: "\<forall>j<?N. step_state (sequenceSteps ?h' ! j)"
    by (simp add: sendResponse_def nth_append built_step_def)
  show ?thesis using run log sq st by blast
qed

text \<open>
  What the parser does guarantee about START. First, for any command text: either the
  command is rejected (one reply beginning with \<^verbatim>\<open>ERROR: \<close>, no pin written, no wait,
  nothing else changed), or the values the parser read have been validated:
  reps in [1,1000], delay at least 0, a step count in [1,256] and that many electrode numbers
  in [1,140] and durations at least 0, and only then calls \<^verbatim>\<open>executeSequence\<close>, where every
  electrode write of the command happens. Second, for a command rendered in the wire
  format, with \<^verbatim>\<open>END\<close> after its steps or with nothing after them: if reps is outside
  [1,1000], or the step count is outside [1,256], or some electrode number is outside [1,140],
  or some duration is negative, or \<^verbatim>\<open>END\<close> is missing, or the number of steps before
  \<^verbatim>\<open>END\<close> is not the step count, the command is rejected.
\<close>

theorem start_rejected_without_actuation:
  "(rejected h (parseElectrodeCommand ov cmd h)
      \<or> (\<exists>reps delay n ids durs.
            1 \<le> reps \<and> reps \<le> 1000 \<and> 0 \<le> delay \<and> 1 \<le> n \<and> n \<le> 256 \<and> validated n ids durs
            \<and> parseElectrodeCommand ov cmd h
              = (case UartCommandHandler_executeSequence reps delay n ids durs h of
                   Inl f \<Rightarrow> Inl f | Inr h1 \<Rightarrow> Inr (sendOK h1))))
   \<and> ((tail = [] \<or> tail = ''END'')
        \<and> (reps < 1 \<or> 1000 < reps \<or> n < 1 \<or> 256 < n \<or> \<not> list_all valid_step sts
             \<or> tail \<noteq> ''END'' \<or> int (length sts) \<noteq> n)
      \<longrightarrow> rejected h (parseElectrodeCommand ov (start_line reps delay n sts tail) h))"
proof (intro conjI impI)
  show "rejected h (parseElectrodeCommand ov cmd h)
      \<or> (\<exists>reps delay n ids durs.
            1 \<le> reps \<and> reps \<le> 1000 \<and> 0 \<le> delay \<and> 1 \<le> n \<and> n \<le> 256 \<and> validated n ids durs
            \<and> parseElectrodeCommand ov cmd h
              = (case UartCommandHandler_executeSequence reps delay n ids durs h of
                   Inl f \<Rightarrow> Inl f | Inr h1 \<Rightarrow> Inr (sendOK h1)))"
    by (rule parseElectrodeCommand_outcome)
next
  assume a: "(tail = [] \<or> tail = ''END'')
        \<and> (reps < 1 \<or> 1000 < reps \<or> n < 1 \<or> 256 < n \<or> \<not> list_all valid_step sts
             \<or> tail \<noteq> ''END'' \<or> int (length sts) \<noteq> n)"
  then have "\<not> (valid_header reps delay n \<and> accepts n 0 sts tail)"
    by (auto simp: valid_header_def accepts_def)
  with a parseElectrodeCommand_rendered[of tail reps delay n sts ov h]
  show "rejected h (parseElectrodeCommand ov (start_line reps delay n sts tail) h)"
    by blast
qed


text \<open>
  C9. For any START command text, on a handler whose step array has its declared size: the
  command returns, every hardware event it adds switches nothing off (rows are only driven
  high, columns only low), and unless the command was rejected the sequence it built has
  target state true in every one of its \<open>numSteps\<close> steps.
\<close>

theorem start_steps_energize:
  assumes "length (sequenceSteps h) = MAX_STEPS"
  shows "\<exists>h' es. parseElectrodeCommand ov cmd h = Inr h'
           \<and> hal (arrayDriver h') = hal (arrayDriver h) @ es \<and> list_all energizes es
           \<and> (rejected h (Inr h')
                \<or> (\<exists>arr. steps (handlerSequence h') = Some arr
                      \<and> (\<forall>j<unat (numSteps (handlerSequence h')). step_state (arr ! j))))"
proof -
  from parseElectrodeCommand_outcome[of h ov cmd]
  consider (rej) "rejected h (parseElectrodeCommand ov cmd h)"
    | (acc) reps delay n ids durs where
        "1 \<le> reps" "reps \<le> 1000" "0 \<le> delay" "1 \<le> n" "n \<le> 256" "validated n ids durs"
        "parseElectrodeCommand ov cmd h
           = (case UartCommandHandler_executeSequence reps delay n ids durs h of
                Inl f \<Rightarrow> Inl f | Inr h1 \<Rightarrow> Inr (sendOK h1))"
    by blast
  then show ?thesis
  proof cases
    case rej
    then obtain h' where h': "parseElectrodeCommand ov cmd h = Inr h'"
      "h' = h\<lparr>arrayDriver := emit [Transmit (responseBuffer h')] (arrayDriver h),
                    responseBuffer := responseBuffer h'\<rparr>"
      by (auto simp: rejected_def split: sum.splits)
    have "hal (arrayDriver h') = hal (arrayDriver h) @ [Transmit (responseBuffer h')]"
      by (subst h'(2)) (simp add: emit_def)
    moreover have "list_all energizes [Transmit (responseBuffer h')]" by simp
    ultimately show ?thesis using rej h'(1) by auto
  next
    case acc
    from executeSequence_validated[OF acc(1-6) assms] obtain h1 where
      h1: "UartCommandHandler_executeSequence reps delay n ids durs h = Inr h1"
        "hal (arrayDriver h1)
           = hal (arrayDriver h) @ Transmit ''Executing sequence...\<newline>''
               # spec_blocking_events (electrodeMap (arrayDriver h)) (nat reps) delay (zip ids durs)
               @ [Transmit ''Sequence complete\<newline>'']"
        "steps (handlerSequence h1) = Some (sequenceSteps h1)"
        "unat (numSteps (handlerSequence h1)) = nat n"
        "\<forall>j<nat n. step_state (sequenceSteps h1 ! j)"
      by blast
    let ?es = "Transmit ''Executing sequence...\<newline>''
               # spec_blocking_events (electrodeMap (arrayDriver h)) (nat reps) delay (zip ids durs)
               @ [Transmit ''Sequence complete\<newline>'', Transmit ''OK\<newline>'']"
    have run: "parseElectrodeCommand ov cmd h = Inr (sendOK h1)"
      by (simp add: acc(7) h1(1))
    have log: "hal (arrayDriver (sendOK h1)) = hal (arrayDriver h) @ ?es"
      by (simp add: sendOK_def sendResponse_def emit_def h1(2))
    have en: "list_all energizes ?es"
      by (simp add: list_all_energizes_spec_blocking_events)
    have sq: "steps (handlerSequence (sendOK h1)) = Some (sequenceSteps h1)
              \<and> (\<forall>j<unat (numSteps (handlerSequence (sendOK h1))). step_state (sequenceSteps h1 ! j))"
      using h1(3-5) by (simp add: sendOK_def sendResponse_def)
    show ?thesis using run log en sq by blast
  qed
qed

lemma fresh_handler_shape:
  "length (sequenceSteps (fresh_handler d)) = MAX_STEPS"
  "electrodeMap (arrayDriver (fresh_handler d)) = electrodeMap d"
  by (simp_all add: fresh_handler_def UartCommandHandler_init_def sendResponse_def emit_def)

lemma electrodeMap_default_driver:
  "electrodeMap default_driver
   = map (\<lambda>i. \<lparr>map_row = of_nat (i div NUM_COLS), map_col = of_nat (i mod NUM_COLS)\<rparr>) [0..<NUM_ELECTRODES]"
  unfolding default_driver_def
  by (rule new_absent_sources) (simp_all add: zeroed_def)

lemma start_line_example:
  "start_line 3 50 2 [(1, 10), (2, 20)] ''END'' = ''START|3|50|2|1,10|2,20|END''"
  "start_line 0 50 2 [(1, 10), (2, 20)] ''END'' = ''START|0|50|2|1,10|2,20|END''"
  "start_line 1 0 1 [(141, 10)] ''END'' = ''START|1|0|1|141,10|END''"
  "start_line 1 0 1 [(5, -1)] ''END'' = ''START|1|0|1|5,-1|END''"
  "start_line 1 0 1 [(5, 1)] [] = ''START|1|0|1|5,1|''"
  "start_line 1 0 2 [(5, 1)] ''END'' = ''START|1|0|2|5,1|END''"
  "start_line 1 0 1 [(5, 1), (6, 1)] ''END'' = ''START|1|0|1|5,1|6,1|END''"
  by code_simp+

theorem start_rejected_without_actuation_witness:
  "rejected (fresh_handler default_driver)
     (parseElectrodeCommand id ''START|0|50|2|1,10|2,20|END'' (fresh_handler default_driver))
   \<and> rejected (fresh_handler default_driver)
     (parseElectrodeCommand id (start_line 1 0 257 (replicate 257 (1, 10)) ''END'') (fresh_handler default_driver))
   \<and> rejected (fresh_handler default_driver)
     (parseElectrodeCommand id ''START|1|0|1|141,10|END'' (fresh_handler default_driver))
   \<and> rejected (fresh_handler default_driver)
     (parseElectrodeCommand id ''START|1|0|1|5,-1|END'' (fresh_handler default_driver))
   \<and> rejected (fresh_handler default_driver)
     (parseElectrodeCommand id ''START|1|0|1|5,1|'' (fresh_handler default_driver))
   \<and> rejected (fresh_handler default_driver)
     (parseElectrodeCommand id ''START|1|0|2|5,1|END'' (fresh_handler default_driver))
   \<and> rejected (fresh_handler default_driver)
     (parseElectrodeCommand id ''START|1|0|1|5,1|6,1|END'' (fresh_handler default_driver))"
proof -
  let ?h = "fresh_handler default_driver"
  note t = start_rejected_without_actuation[of ?h id "[]", THEN conjunct2, rule_format]
  have "rejected ?h (parseElectrodeCommand id (start_line 0 50 2 [(1, 10), (2, 20)] ''END'') ?h)"
    by (rule t) simp
  moreover have "rejected ?h (parseElectrodeCommand id (start_line 1 0 257 (replicate 257 (1, 10)) ''END'') ?h)"
    by (rule t) simp
  moreover have "rejected ?h (parseElectrodeCommand id (start_line 1 0 1 [(141, 10)] ''END'') ?h)"
    by (rule t) (simp add: valid_step_def)
  moreover have "rejected ?h (parseElectrodeCommand id (start_line 1 0 1 [(5, -1)] ''END'') ?h)"
    by (rule t) (simp add: valid_step_def)
  moreover have "rejected ?h (parseElectrodeCommand id (start_line 1 0 1 [(5, 1)] [] ) ?h)"
    by (rule t) simp
  moreover have "rejected ?h (parseElectrodeCommand id (start_line 1 0 2 [(5, 1)] ''END'') ?h)"
    by (rule t) simp
  moreover have "rejected ?h (parseElectrodeCommand id (start_line 1 0 1 [(5, 1), (6, 1)] ''END'') ?h)"
    by (rule t) simp
  ultimately show ?thesis by (simp only: start_line_example)
qed


theorem start_steps_energize_witness:
  "length (sequenceSteps (fresh_handler default_driver)) = MAX_STEPS
   \<and> (\<exists>h' es. parseElectrodeCommand id ''START|3|50|2|1,10|2,20|END'' (fresh_handler default_driver) = Inr h'
           \<and> hal (arrayDriver h') = hal (arrayDriver (fresh_handler default_driver)) @ es
           \<and> list_all energizes es
           \<and> (rejected (fresh_handler default_driver) (Inr h')
                \<or> (\<exists>arr. steps (handlerSequence h') = Some arr
                      \<and> (\<forall>j<unat (numSteps (handlerSequence h')). step_state (arr ! j)))))"
  using start_steps_energize[OF fresh_handler_shape(1)[of default_driver], of id "''START|3|50|2|1,10|2,20|END''"]
    fresh_handler_shape(1)[of default_driver]
  by blast

lemma lax_atoi:
  "atoi ''1|0|1|5|999,10|END'' = 1"
  "atoi ''0|1|5|999,10|END'' = 0"
  "atoi ''1|5|999,10|END'' = 1"
  "atoi ''5|999,10|END'' = 5"
  "atoi ''10|END'' = 10"
  by code_simp+

lemma lax_header:
  "parseElectrodeCommand ov ''START|1|0|1|5|999,10|END'' h
   = parse_steps ov 1 0 1 0 ''5|999,10|END'' [] [] h"
  by (simp add: parseElectrodeCommand_def starts_with_def Let_def lax_atoi)

lemma lax_steps:
  "parse_steps ov 1 0 1 0 ''5|999,10|END'' [] [] h
   = (case UartCommandHandler_executeSequence 1 0 1 [5] [10] h of
        Inl f \<Rightarrow> Inl f | Inr h1 \<Rightarrow> Inr (sendOK h1))"
  by (subst parse_steps.simps) (simp add: Let_def lax_atoi starts_with_def)

text \<open>
  C2, evaluated where it fails. The line \<^verbatim>\<open>START|1|0|1|5|999,10|END\<close> declares one step; its
  first step field has no comma, the next field names electrode 999, and \<^verbatim>\<open>END\<close> comes after
  two fields. The search for the comma runs past the field separator, so the parser reads
  electrode 5 with duration 10, finds \<^verbatim>\<open>END\<close>, and executes: on the default map the row
  and column of electrode 5 are driven, the wait of 10 ms is made, and the reply is \<^verbatim>\<open>OK\<close>.
  The command is not rejected.
\<close>

theorem start_lax_scan_accepted:
  "\<exists>h'. parseElectrodeCommand ov ''START|1|0|1|5|999,10|END'' (fresh_handler default_driver) = Inr h'
     \<and> hal (arrayDriver h')
         = hal (arrayDriver (fresh_handler default_driver))
           @ [Transmit ''Executing sequence...\<newline>'', RowLine 0 True, ColLine 4 False, Delay 10,
              Transmit ''Sequence complete\<newline>'', Transmit ''OK\<newline>'']
     \<and> \<not> rejected (fresh_handler default_driver) (Inr h')"
proof -
  let ?h = "fresh_handler default_driver"
  have v: "validated 1 [5] [10]" by (simp add: validated_def)
  have len: "length (sequenceSteps ?h) = MAX_STEPS" by (rule fresh_handler_shape)
  from executeSequence_validated[of 1 0 1 "[5]" "[10]" ?h, OF _ _ _ _ _ v len] obtain h1 where
    h1: "UartCommandHandler_executeSequence 1 0 1 [5] [10] ?h = Inr h1"
      "hal (arrayDriver h1)
         = hal (arrayDriver ?h) @ Transmit ''Executing sequence...\<newline>''
             # spec_blocking_events (electrodeMap (arrayDriver ?h)) (nat 1) 0 (zip [5] [10])
             @ [Transmit ''Sequence complete\<newline>'']"
    by auto
  have one: "[0..<Suc 0] = [0]" by simp
  have ev: "spec_blocking_events (electrodeMap (arrayDriver ?h)) (Suc 0) 0 [(5, 10)]
            = [RowLine 0 True, ColLine 4 False, Delay 10]"
    by (simp add: fresh_handler_shape electrodeMap_default_driver spec_blocking_events_def
        spec_step_events_def Let_def one del: upt_Suc)
  have run: "parseElectrodeCommand ov ''START|1|0|1|5|999,10|END'' ?h = Inr (sendOK h1)"
    by (simp add: lax_header lax_steps h1(1))
  have log: "hal (arrayDriver (sendOK h1))
         = hal (arrayDriver ?h)
           @ [Transmit ''Executing sequence...\<newline>'', RowLine 0 True, ColLine 4 False, Delay 10,
              Transmit ''Sequence complete\<newline>'', Transmit ''OK\<newline>'']"
    by (simp add: sendOK_def sendResponse_def emit_def h1(2) ev)
  have nr: "\<not> rejected ?h (Inr (sendOK h1))"
  proof
    assume r: "rejected ?h (Inr (sendOK h1))"
    define x where "x = responseBuffer (sendOK h1)"
    from r have "sendOK h1 = ?h\<lparr>arrayDriver := emit [Transmit x] (arrayDriver ?h), responseBuffer := x\<rparr>"
      by (simp add: rejected_def x_def)
    then have "hal (arrayDriver (sendOK h1))
               = hal (arrayDriver (?h\<lparr>arrayDriver := emit [Transmit x] (arrayDriver ?h), responseBuffer := x\<rparr>))"
      by (rule arg_cong)
    then have "hal (arrayDriver (sendOK h1)) = hal (arrayDriver ?h) @ [Transmit x]"
      by (simp add: emit_def)
    then show False unfolding log by simp
  qed
  show ?thesis using run log nr by blast
qed

end
